theory Spec2Isabelle
  imports Main "HOL-Library.Sublist" "HOL-Library.Multiset"
begin

section \<open>JavaScript strings\<close>

text \<open>
  Texts are modelled as \<^typ>\<open>string\<close> (lists of 8-bit characters).  The scripts only
  look for ASCII keywords, so the model covers ASCII texts with ASCII white space; the
  functions below are the ASCII restrictions of the JavaScript string methods of the
  same names.
\<close>

text \<open>\<^verbatim>\<open>String.prototype.toLowerCase\<close> on ASCII: the letters A-Z are mapped to a-z.\<close>

definition lowerChar :: "char \<Rightarrow> char" where
  "lowerChar c =
     (if 65 \<le> (of_char c :: nat) \<and> (of_char c :: nat) \<le> 90
      then char_of ((of_char c :: nat) + 32) else c)"

definition toLowerCase :: "string \<Rightarrow> string" where
  "toLowerCase s = map lowerChar s"

text \<open>\<^verbatim>\<open>s.startsWith(p)\<close> and \<^verbatim>\<open>s.includes(p)\<close>.\<close>

definition startsWith :: "string \<Rightarrow> string \<Rightarrow> bool" where
  "startsWith s p = prefix p s"

fun includes' :: "string \<Rightarrow> string \<Rightarrow> bool" where
  "includes' [] p = (p = [])"
| "includes' (c # cs) p = (prefix p (c # cs) \<or> includes' cs p)"

text \<open>
  White space as \<^verbatim>\<open>trim\<close> and the regular expression class \<^verbatim>\<open>\s\<close> see it (tab, line
  feed, vertical tab, form feed, carriage return, space), and the line terminators that
  \<^verbatim>\<open>.\<close> refuses and \<^verbatim>\<open>$\<close> (flag m) stops at.
\<close>

definition isSpace :: "char \<Rightarrow> bool" where
  "isSpace c = (c \<in> set [CHR 0x09, CHR 0x0A, CHR 0x0B, CHR 0x0C, CHR 0x0D, CHR 0x20])"

definition isLineTerminator :: "char \<Rightarrow> bool" where
  "isLineTerminator c = (c = CHR 0x0A \<or> c = CHR 0x0D)"

definition isDigit :: "char \<Rightarrow> bool" where
  "isDigit c = (c \<in> set ''0123456789'')"

definition trim :: "string \<Rightarrow> string" where
  "trim s = rev (dropWhile isSpace (rev (dropWhile isSpace s)))"

text \<open>\<^verbatim>\<open>s.split(c)\<close> for a one-character separator: never the empty list.\<close>

fun split :: "char \<Rightarrow> string \<Rightarrow> string list" where
  "split sep [] = [[]]"
| "split sep (c # cs) =
     (if c = sep then [] # split sep cs
      else (case split sep cs of
              [] \<Rightarrow> [[c]]
            | l # ls \<Rightarrow> (c # l) # ls))"

section \<open>Release Parser: \<^verbatim>\<open>parseReleaseBody\<close>\<close>

record parsed =
  features :: "string list"
  improvements :: "string list"
  fixes' :: "string list"
  breaking :: bool

text \<open>
  The \<^verbatim>\<open>for (const line of lines)\<close> loop, with the three arrays it pushes to as the
  accumulator.
\<close>

fun categorize :: "string list \<Rightarrow> parsed \<Rightarrow> parsed" where
  "categorize [] acc = acc"
| "categorize (line # rest) acc =
     (if startsWith line ''* '' \<or> startsWith line ''- '' then
        (let item = trim (drop 2 line) in
           if includes' item ''made their first contribution'' \<or>
              includes' item ''@'' \<and> includes' item ''in #'' \<or>
              includes' item ''Full Changelog''
           then categorize rest acc
           else
             (let lowerItem = toLowerCase item in
                if includes' lowerItem ''fix'' \<or> includes' lowerItem ''resolve'' \<or>
                   includes' lowerItem ''solved''
                then categorize rest (acc\<lparr>fixes' := fixes' acc @ [item]\<rparr>)
                else if includes' lowerItem ''add'' \<or> includes' lowerItem ''new'' \<or>
                        includes' lowerItem ''support'' \<and> \<not> includes' lowerItem ''fix''
                then categorize rest (acc\<lparr>features := features acc @ [item]\<rparr>)
                else categorize rest (acc\<lparr>improvements := improvements acc @ [item]\<rparr>)))
      else categorize rest acc)"

definition bodyLines :: "string \<Rightarrow> string list" where
  "bodyLines body = filter (\<lambda>line. line \<noteq> []) (map trim (split CHR 0x0A body))"

definition detectBreaking :: "string \<Rightarrow> bool" where
  "detectBreaking body =
     (includes' (toLowerCase body) ''breaking change'' \<or>
      includes' (toLowerCase body) ''!!breaking'')"

text \<open>The body of a release may be absent (\<^verbatim>\<open>null\<close>); the empty string is falsy too.\<close>

definition parseReleaseBody :: "string option \<Rightarrow> parsed" where
  "parseReleaseBody body =
     (case body of
        None \<Rightarrow> \<lparr>features = [], improvements = [], fixes' = [], breaking = False\<rparr>
      | Some b \<Rightarrow>
          if b = [] then \<lparr>features = [], improvements = [], fixes' = [], breaking = False\<rparr>
          else categorize (bodyLines b)
                 \<lparr>features = [], improvements = [], fixes' = [],
                  breaking = detectBreaking b\<rparr>)"

subsection \<open>The classification rule as the specification words it\<close>

datatype category = Fix | Feature | Improvement

definition isBullet :: "string \<Rightarrow> bool" where
  "isBullet line = (startsWith line ''* '' \<or> startsWith line ''- '')"

text \<open>The items of the bullet lines of a body, marker stripped, in the order of the body.\<close>

definition bulletItems :: "string \<Rightarrow> string list" where
  "bulletItems body = map (\<lambda>line. trim (drop 2 line)) (filter isBullet (bodyLines body))"

definition discarded :: "string \<Rightarrow> bool" where
  "discarded item =
     (includes' item ''made their first contribution'' \<or>
      (includes' item ''@'' \<and> includes' item ''in #'') \<or>
      includes' item ''Full Changelog'')"

definition containsCI :: "string \<Rightarrow> string \<Rightarrow> bool" where
  "containsCI item word = includes' (toLowerCase item) word"

text \<open>First matching rule, in the order fix, feature, improvement.\<close>

definition specCategory :: "string \<Rightarrow> category" where
  "specCategory item =
     (if containsCI item ''fix'' \<or> containsCI item ''resolve'' \<or> containsCI item ''solved''
      then Fix
      else if containsCI item ''add'' \<or> containsCI item ''new'' \<or>
              (containsCI item ''support'' \<and> \<not> containsCI item ''fix'')
      then Feature
      else Improvement)"

definition keptItems :: "string \<Rightarrow> string list" where
  "keptItems body = filter (\<lambda>item. \<not> discarded item) (bulletItems body)"

subsection \<open>A sample release body\<close>

definition exampleBody :: string where
  "exampleBody =
     ''* Added new endpoint\<newline>* Fixed null pointer bug\<newline>'' @
     ''* @bob made their first contribution in #42\<newline>- Fix: add retry to the fetcher''"

section \<open>Regular expressions\<close>

text \<open>
  The constructs the scripts' patterns use: literal text, one character of a class,
  sequence, the greedy \<^verbatim>\<open>*\<close> and \<^verbatim>\<open>?\<close>, the lazy \<^verbatim>\<open>*?\<close>, the assertion \<^verbatim>\<open>$\<close> and the
  capture group 1.  In the scripts' patterns a capture group never stands inside a
  repetition.
\<close>

datatype regex =
    Lit string
  | Cls "char \<Rightarrow> bool"
  | Seq regex regex
  | Star regex
  | Opt regex
  | LazyStar regex
  | Eol
  | Grp regex

text \<open>Flag i compares letters without their case; the classes used hold no letters.\<close>

definition sameChar :: "bool \<Rightarrow> char \<Rightarrow> char \<Rightarrow> bool" where
  "sameChar ignoreCase c d = (if ignoreCase then lowerChar c = lowerChar d else c = d)"

text \<open>The rest of the input behind a literal, if the input starts with it.\<close>

fun litMatch :: "bool \<Rightarrow> string \<Rightarrow> string \<Rightarrow> string option" where
  "litMatch i [] s = Some s"
| "litMatch i (c # cs) [] = None"
| "litMatch i (c # cs) (d # ds) = (if sameChar i c d then litMatch i cs ds else None)"

definition later :: "string option \<Rightarrow> string option \<Rightarrow> string option" where
  "later g g' = (case g' of None \<Rightarrow> g | Some x \<Rightarrow> Some x)"

text \<open>
  The backtracking matcher: \<open>rmatch i m r s\<close> lists, in the order in which backtracking
  tries them, the ways \<open>r\<close> matches at the start of \<open>s\<close>, each as the text of group 1 (if
  the group took part) and the rest of the input.  \<open>i\<close> and \<open>m\<close> are the flags.  A
  repetition gives up an iteration that consumed nothing.
\<close>

fun rmatch :: "bool \<Rightarrow> bool \<Rightarrow> regex \<Rightarrow> string \<Rightarrow> (string option \<times> string) list" where
  "rmatch i m (Lit p) s =
     (case litMatch i p s of None \<Rightarrow> [] | Some rest \<Rightarrow> [(None, rest)])"
| "rmatch i m (Cls P) s =
     (case s of [] \<Rightarrow> [] | c # cs \<Rightarrow> if P c then [(None, cs)] else [])"
| "rmatch i m (Seq a b) s =
     concat (map (\<lambda>(g, s'). map (\<lambda>(g', s''). (later g g', s'')) (rmatch i m b s'))
                 (rmatch i m a s))"
| "rmatch i m (Star a) s =
     concat (map (\<lambda>(g, s'). if length s' < length s then rmatch i m (Star a) s' else [])
                 (rmatch i m a s)) @ [(None, s)]"
| "rmatch i m (Opt a) s = rmatch i m a s @ [(None, s)]"
| "rmatch i m (LazyStar a) s =
     (None, s) #
     concat (map (\<lambda>(g, s'). if length s' < length s then rmatch i m (LazyStar a) s' else [])
                 (rmatch i m a s))"
| "rmatch i m Eol s =
     (if s = [] \<or> (m \<and> isLineTerminator (hd s)) then [(None, s)] else [])"
| "rmatch i m (Grp a) s =
     map (\<lambda>(g, s'). (Some (take (length s - length s') s), s')) (rmatch i m a s)"

text \<open>The greedy \<^verbatim>\<open>+\<close>, and a sequence of several parts.\<close>

definition Plus :: "regex \<Rightarrow> regex" where
  "Plus a = Seq a (Star a)"

fun seqs :: "regex list \<Rightarrow> regex" where
  "seqs [] = Lit []"
| "seqs [r] = r"
| "seqs (r # rs) = Seq r (seqs rs)"

text \<open>
  \<^verbatim>\<open>s.match(r)\<close> without flag g: the leftmost position at which \<open>r\<close> matches, with the
  first way the matcher finds there.
\<close>

record match =
  prefixText :: string
  matched :: string
  group1 :: "string option"
  suffixText :: string

fun rexec :: "bool \<Rightarrow> bool \<Rightarrow> regex \<Rightarrow> string \<Rightarrow> match option" where
  "rexec i m r s =
     (case rmatch i m r s of
        (g, rest) # _ \<Rightarrow>
          Some \<lparr>prefixText = [], matched = take (length s - length rest) s, group1 = g,
                suffixText = rest\<rparr>
      | [] \<Rightarrow>
          (case s of
             [] \<Rightarrow> None
           | c # cs \<Rightarrow> map_option (\<lambda>x. x\<lparr>prefixText := c # prefixText x\<rparr>) (rexec i m r cs)))"

text \<open>
  \<^verbatim>\<open>s.replace(r, new)\<close> without flag g replaces the first match; the replacement texts of
  the scripts hold no \<^verbatim>\<open>$\<close>, so they are taken literally.
\<close>

definition replace :: "bool \<Rightarrow> bool \<Rightarrow> regex \<Rightarrow> string \<Rightarrow> string \<Rightarrow> string" where
  "replace i m r new s =
     (case rexec i m r s of None \<Rightarrow> s | Some x \<Rightarrow> prefixText x @ new @ suffixText x)"

text \<open>Decimal numerals, as template literals print a number.\<close>

definition digitChar :: "nat \<Rightarrow> char" where
  "digitChar d = ''0123456789'' ! d"

fun showNat :: "nat \<Rightarrow> string" where
  "showNat n = (if n < 10 then [digitChar n] else showNat (n div 10) @ [digitChar (n mod 10)])"

declare showNat.simps [simp del]

definition showInt :: "int \<Rightarrow> string" where
  "showInt k = (if k < 0 then ''-'' @ showNat (nat (- k)) else showNat (nat k))"

section \<open>Changelog Renderer\<close>

text \<open>
  A release as the GitHub API lists it.  \<^verbatim>\<open>Date\<close> is the runtime's: its reading of a
  timestamp, the calendar year and the en-US rendering are parameters of the model.
\<close>

record release =
  tag_name :: string
  published_at :: string
  body :: "string option"
  prerelease :: bool

record dateLib =
  timeOf :: "string \<Rightarrow> int"
  getFullYear :: "string \<Rightarrow> int"
  formatDate :: "string \<Rightarrow> string"

text \<open>\<^verbatim>\<open>/BREAKING CHANGE[:\s]*(.*?)$/im\<close>\<close>

definition breakingRegex :: regex where
  "breakingRegex =
     seqs [Lit ''BREAKING CHANGE'', Star (Cls (\<lambda>c. c = CHR '':'' \<or> isSpace c)),
           Grp (LazyStar (Cls (\<lambda>c. \<not> isLineTerminator c))), Eol]"

text \<open>
  The description of the warning: \<^verbatim>\<open>release.body?.match(...)\<close>, then group 1 trimmed, or
  the fixed sentence.  Group 1 takes part in every match of this pattern.
\<close>

definition breakingDesc :: "string option \<Rightarrow> string" where
  "breakingDesc releaseBody =
     (let breakingMatch =
            (case releaseBody of None \<Rightarrow> None | Some b \<Rightarrow> rexec True True breakingRegex b)
      in case breakingMatch of
           Some x \<Rightarrow> trim (case group1 x of Some g \<Rightarrow> g | None \<Rightarrow> [])
         | None \<Rightarrow> ''This release contains breaking changes.'')"

definition generateUpdateComponent :: "dateLib \<Rightarrow> release \<Rightarrow> string" where
  \<open>generateUpdateComponent L rel =
     (let p = parseReleaseBody (body rel);
          date = formatDate L (published_at rel);
          content0 = ''<Update label="'' @ tag_name rel @ ''" description="Released '' @
                     date @ ''">\<newline>'';
          content1 =
            (if breaking p
             then content0 @ ''<Warning>\<newline>'' @ breakingDesc (body rel) @
                  ''\<newline></Warning>\<newline>\<newline>''
             else content0);
          content2 =
            (if length (features p) > 0
             then foldl (\<lambda>content feature. content @ ''- '' @ feature @ ''\<newline>'')
                    (content1 @ ''## New Features\<newline>'') (take 8 (features p)) @
                  ''\<newline>''
             else content1);
          content3 =
            (if length (improvements p) > 0
             then foldl (\<lambda>content improvement. content @ ''- '' @ improvement @ ''\<newline>'')
                    (content2 @ ''## Improvements\<newline>'') (take 8 (improvements p)) @
                  ''\<newline>''
             else content2);
          content4 =
            (if length (fixes' p) > 0
             then foldl (\<lambda>content fix. content @ ''- '' @ fix @ ''\<newline>'')
                    (content3 @ ''## Bug Fixes\<newline>'') (take 8 (fixes' p)) @
                  ''\<newline>''
             else content3)
      in content4 @ ''</Update>\<newline>'')\<close>

definition frontMatter :: string where
  \<open>frontMatter =
     ''---\<newline>'' @
     ''title: "Changelog"\<newline>'' @
     ''description: "Track the latest updates, improvements, and changes to the Country State City ecosystem including API, database, and tools."\<newline>'' @
     ''icon: "clock"\<newline>'' @
     ''---\<newline>'' @
     ''\<newline>'' @
     ''# Changelog\<newline>'' @
     ''\<newline>'' @
     ''Stay up-to-date with the latest improvements, new features, and changes across the Country State City ecosystem.\<newline>'' @
     ''\<newline>'' @
     ''<Info>\<newline>'' @
     ''This changelog is automatically synced from [GitHub releases](https://github.com/dr5hn/countries-states-cities-database/releases). For detailed technical information, visit the repository.\<newline>'' @
     ''</Info>\<newline>'' @
     ''\<newline>''\<close>

definition footer :: string where
  \<open>footer =
     ''## Release Information\<newline>'' @
     ''\<newline>'' @
     ''<Tip>\<newline>'' @
     ''Our releases follow semantic versioning (SemVer) with the following format:\<newline>'' @
     ''- **Major.Minor.Patch** (e.g., 3.0.0)\<newline>'' @
     ''- **Major**: Breaking changes requiring migration\<newline>'' @
     ''- **Minor**: New features with backward compatibility  \<newline>'' @
     ''- **Patch**: Bug fixes and minor improvements\<newline>'' @
     ''</Tip>\<newline>'' @
     ''\<newline>'' @
     ''## Stay Updated\<newline>'' @
     ''\<newline>'' @
     ''<CardGroup cols={2}>\<newline>'' @
     ''<Card title="GitHub Releases" icon="github" href="https://github.com/dr5hn/countries-states-cities-database/releases">\<newline>'' @
     ''  Get notified about new releases and download assets directly from GitHub.\<newline>'' @
     ''</Card>\<newline>'' @
     ''\<newline>'' @
     ''<Card title="API Portal" icon="globe" href="https://countrystatecity.in">\<newline>'' @
     ''  Access the API and get your developer key for integration.\<newline>'' @
     ''</Card>\<newline>'' @
     ''</CardGroup>\<newline>'' @
     ''\<newline>'' @
     ''## Contributing to Updates\<newline>'' @
     ''\<newline>'' @
     ''We welcome community contributions to keep our geographical data accurate and up-to-date.\<newline>'' @
     ''\<newline>'' @
     ''<Steps>\<newline>'' @
     ''<Step title="Identify Changes">\<newline>'' @
     ''  Notice outdated or incorrect geographical information? Check our data against official government sources.\<newline>'' @
     ''</Step>\<newline>'' @
     ''\<newline>'' @
     ''<Step title="Use Update Tool">\<newline>'' @
     ''  Submit changes through our [Update Tool](/tools/update-tool) with proper documentation and sources.\<newline>'' @
     ''</Step>\<newline>'' @
     ''\<newline>'' @
     ''<Step title="Review Process">\<newline>'' @
     ''  Our team reviews all submissions for accuracy and integrates approved changes into the next release.\<newline>'' @
     ''</Step>\<newline>'' @
     ''</Steps>\<newline>'' @
     ''\<newline>'' @
     ''<Info>\<newline>'' @
     ''All major data updates are tested extensively before release to ensure accuracy and maintain API compatibility.\<newline>'' @
     ''</Info>\<newline>''\<close>

text \<open>
  \<^verbatim>\<open>releasesByYear\<close>: an object keyed by year, here the list of its entries in the order
  in which the keys were added.
\<close>

definition addRelease ::
  "dateLib \<Rightarrow> (int \<times> release list) list \<Rightarrow> release \<Rightarrow> (int \<times> release list) list" where
  "addRelease L obj rel =
     (let year = getFullYear L (published_at rel);
          obj' = (if map_of obj year = None then obj @ [(year, [])] else obj)
      in map (\<lambda>(k, v). if k = year then (k, v @ [rel]) else (k, v)) obj')"

definition releasesByYear :: "dateLib \<Rightarrow> release list \<Rightarrow> (int \<times> release list) list" where
  "releasesByYear L releases = foldl (addRelease L) [] releases"

text \<open>
  \<^verbatim>\<open>Object.keys\<close>: keys that are array indices first, ascending, then the other keys in
  the order in which they were added.
\<close>

definition objectKeys :: "(int \<times> 'a) list \<Rightarrow> int list" where
  "objectKeys obj =
     sort (filter (\<lambda>k. 0 \<le> k) (map fst obj)) @ filter (\<lambda>k. k < 0) (map fst obj)"

text \<open>
  \<^verbatim>\<open>Array.prototype.sort\<close> is stable; with the comparator \<^verbatim>\<open>(a, b) => key(b) - key(a)\<close>
  it sorts by descending key, which is \<^const>\<open>sort_key\<close> on the negated key.
\<close>

definition sortedYears :: "(int \<times> release list) list \<Rightarrow> int list" where
  "sortedYears obj = sort_key (\<lambda>year. - year) (objectKeys obj)"

definition yearReleases :: "dateLib \<Rightarrow> (int \<times> release list) list \<Rightarrow> int \<Rightarrow> release list" where
  "yearReleases L obj year =
     sort_key (\<lambda>rel. - timeOf L (published_at rel))
       (case map_of obj year of None \<Rightarrow> [] | Some rs \<Rightarrow> rs)"

definition generateChangelogContent :: "dateLib \<Rightarrow> release list \<Rightarrow> string" where
  "generateChangelogContent L releases =
     (let obj = releasesByYear L releases;
          years = sortedYears obj;
          content =
            foldl (\<lambda>content year.
                     foldl (\<lambda>content rel. content @ generateUpdateComponent L rel @ ''\<newline>'')
                       (content @ ''## '' @ showInt year @ ''\<newline>\<newline>'')
                       (yearReleases L obj year))
              frontMatter years
      in content @ footer)"

section \<open>Files\<close>

text \<open>The file system: the content of each path that exists.\<close>

type_synonym fs = "string \<rightharpoonup> string"

definition CHANGELOG_PATH :: string where
  "CHANGELOG_PATH = ''changelog.mdx''"

definition OVERVIEW_FILE :: string where
  "OVERVIEW_FILE = ''database/overview.mdx''"

text \<open>
  \<^verbatim>\<open>syncChangelog\<close> once the releases have been fetched (a failed fetch exits before any
  file is touched).
\<close>

definition syncChangelog :: "dateLib \<Rightarrow> release list \<Rightarrow> fs \<Rightarrow> fs" where
  "syncChangelog L releases files =
     (let files1 =
            (case files CHANGELOG_PATH of
               Some old \<Rightarrow> files(CHANGELOG_PATH @ ''.backup'' \<mapsto> old)
             | None \<Rightarrow> files);
          changelogContent = generateChangelogContent L releases
      in files1(CHANGELOG_PATH \<mapsto> changelogContent))"

section \<open>Statistics Extractor\<close>

record stats =
  regions :: "nat option"
  subregions :: "nat option"
  countries :: "nat option"
  states :: "nat option"
  cities :: "nat option"

text \<open>\<^verbatim>\<open>\d+(?:,\d+)*\<close> and \<^verbatim>\<open>\s\<close>\<close>

definition numberRegex :: regex where
  "numberRegex = Seq (Plus (Cls isDigit)) (Star (Seq (Lit '','') (Plus (Cls isDigit))))"

definition ws :: regex where
  "ws = Cls isSpace"

text \<open>The five patterns; all carry flag i.\<close>

definition patterns :: "regex list" where
  "patterns =
     [seqs [Lit ''Total'', Plus ws, Lit ''Region'', Opt (Lit ''s''),
            Star ws, Lit '':'', Star ws, Grp numberRegex],
      seqs [Lit ''Total'', Plus ws, Lit ''Sub'', Plus ws, Lit ''Region'', Opt (Lit ''s''),
            Star ws, Lit '':'', Star ws, Grp numberRegex],
      seqs [Lit ''Total'', Plus ws, Lit ''Countrie'', Opt (Lit ''s''),
            Star ws, Lit '':'', Star ws, Grp numberRegex],
      seqs [Lit ''Total'', Plus ws, Lit ''State'', Opt (Lit ''s''),
            Opt (seqs [Lit ''/Region'', Opt (Lit ''s''), Lit ''/Municipalitie'', Opt (Lit ''s'')]),
            Star ws, Lit '':'', Star ws, Grp numberRegex],
      seqs [Lit ''Total'', Plus ws, Lit ''Citie'', Opt (Lit ''s''),
            Opt (seqs [Lit ''/Town'', Opt (Lit ''s''), Lit ''/District'', Opt (Lit ''s'')]),
            Star ws, Lit '':'', Star ws, Grp numberRegex]]"

text \<open>
  \<^verbatim>\<open>parseInt\<close> reads the leading decimal digits.  The texts that reach it are group 1 of
  a pattern with the commas removed: digits only, and at least one.  Numbers are not
  bounded in the model, where the script's are doubles.
\<close>

definition digitValue :: "char \<Rightarrow> nat" where
  "digitValue c = length (takeWhile (\<lambda>d. d \<noteq> c) ''0123456789'')"

definition parseInt :: "string \<Rightarrow> nat" where
  "parseInt s = foldl (\<lambda>acc c. 10 * acc + digitValue c) 0 (takeWhile isDigit s)"

definition groupText :: "match \<Rightarrow> string" where
  "groupText x = (case group1 x of Some g \<Rightarrow> g | None \<Rightarrow> [])"

definition removeCommas :: "string \<Rightarrow> string" where
  "removeCommas s = filter (\<lambda>c. c \<noteq> CHR '','') s"

definition parseStatistics :: "string \<Rightarrow> stats" where
  "parseStatistics readmeContent =
     (let regionMatch = rexec True False (patterns ! 0) readmeContent;
          subregionMatch = rexec True False (patterns ! 1) readmeContent;
          countryMatch = rexec True False (patterns ! 2) readmeContent;
          stateMatch = rexec True False (patterns ! 3) readmeContent;
          cityMatch = rexec True False (patterns ! 4) readmeContent
      in \<lparr>regions = map_option (\<lambda>x. parseInt (removeCommas (groupText x))) regionMatch,
          subregions = map_option (\<lambda>x. parseInt (removeCommas (groupText x))) subregionMatch,
          countries = map_option (\<lambda>x. parseInt (removeCommas (groupText x))) countryMatch,
          states = map_option (\<lambda>x. parseInt (removeCommas (groupText x))) stateMatch,
          cities = map_option (\<lambda>x. parseInt (removeCommas (groupText x))) cityMatch\<rparr>)"

section \<open>Overview Rewriter\<close>

text \<open>
  \<^verbatim>\<open>formatNumber\<close>: \<^verbatim>\<open>toLocaleString\<close> in the en-US locale, the digits in groups of three
  with commas, as the script's comment has it.
\<close>

fun formatNumber :: "nat \<Rightarrow> string" where
  "formatNumber n =
     (if n < 1000 then showNat n
      else formatNumber (n div 1000) @ '','' @
           [digitChar (n mod 1000 div 100), digitChar (n mod 100 div 10), digitChar (n mod 10)])"

declare formatNumber.simps [simp del]

text \<open>The current date as \<^verbatim>\<open>Date\<close> gives it: day of the month, month, year.\<close>

datatype month =
  January | February | March | April | May | June | July | August | September | October |
  November | December

fun monthName :: "month \<Rightarrow> string" where
  "monthName January = ''January''"
| "monthName February = ''February''"
| "monthName March = ''March''"
| "monthName April = ''April''"
| "monthName May = ''May''"
| "monthName June = ''June''"
| "monthName July = ''July''"
| "monthName August = ''August''"
| "monthName September = ''September''"
| "monthName October = ''October''"
| "monthName November = ''November''"
| "monthName December = ''December''"

record today =
  dayOfMonth :: nat
  monthOfYear :: month
  fullYear :: nat

definition getCurrentDate :: "today \<Rightarrow> string" where
  "getCurrentDate now =
     (let d = dayOfMonth now;
          suffix = [''th'', ''st'', ''nd'', ''rd''] !
                     (if d mod 10 > 3 \<or> d div 10 = 1 then 0 else d mod 10)
      in showNat d @ suffix @ '' '' @ monthName (monthOfYear now) @ '' '' @
         showNat (fullYear now))"

text \<open>The anchors of the overview document.\<close>

definition anchorOpen :: "string \<Rightarrow> string" where
  \<open>anchorOpen color = ''<div className="text-2xl font-bold text-'' @ color @ ''-600">''\<close>

definition anchorRegex :: "string \<Rightarrow> regex" where
  "anchorRegex color =
     seqs [Lit (anchorOpen color), Plus (Cls isDigit),
           Star (Seq (Lit '','') (Plus (Cls isDigit))), Lit ''</div>'']"

definition anchorText :: "string \<Rightarrow> nat \<Rightarrow> string" where
  "anchorText color n = anchorOpen color @ formatNumber n @ ''</div>''"

definition dateRegex :: regex where
  "dateRegex = Seq (Lit ''Last Updated: '') (Plus (Cls (\<lambda>c. c \<noteq> CHR ''<'')))"

definition descriptionRegex :: regex where
  \<open>descriptionRegex =
     seqs [Lit ''description: "Complete geographical database with '', Plus (Cls isDigit),
           Lit ''+ countries, '', Plus (Cls isDigit), Lit ''+ states, and '',
           Plus (Cls isDigit), Lit ''+ cities in multiple formats"'']\<close>

definition descriptionText :: "nat \<Rightarrow> nat \<Rightarrow> nat \<Rightarrow> string" where
  \<open>descriptionText countriesK statesK citiesK =
     ''description: "Complete geographical database with '' @ showNat countriesK @
     ''+ countries, '' @ showNat (statesK div 1000) @ ''k+ states, and '' @
     showNat (citiesK div 1000) @ ''k+ cities in multiple formats"''\<close>

text \<open>
  The body of \<^verbatim>\<open>updateOverviewFile\<close> between reading the file and writing it: the new
  content and the flag \<^verbatim>\<open>updated\<close>.
\<close>

definition updateContent :: "today \<Rightarrow> stats \<Rightarrow> string \<Rightarrow> string \<times> bool" where
  "updateContent now st content0 =
     (let (content1, updated1) =
            (case regions st of
               Some n \<Rightarrow>
                 (replace False False (anchorRegex ''blue'') (anchorText ''blue'' n) content0, True)
             | None \<Rightarrow> (content0, False));
          (content2, updated2) =
            (case subregions st of
               Some n \<Rightarrow>
                 (replace False False (anchorRegex ''green'') (anchorText ''green'' n) content1,
                  True)
             | None \<Rightarrow> (content1, updated1));
          (content3, updated3) =
            (case countries st of
               Some n \<Rightarrow>
                 (replace False False (anchorRegex ''purple'') (anchorText ''purple'' n) content2,
                  True)
             | None \<Rightarrow> (content2, updated2));
          (content4, updated4) =
            (case states st of
               Some n \<Rightarrow>
                 (replace False False (anchorRegex ''orange'') (anchorText ''orange'' n) content3,
                  True)
             | None \<Rightarrow> (content3, updated3));
          (content5, updated5) =
            (case cities st of
               Some n \<Rightarrow>
                 (replace False False (anchorRegex ''red'') (anchorText ''red'' n) content4, True)
             | None \<Rightarrow> (content4, updated4))
      in if updated5 then
           (let currentDate = getCurrentDate now;
                content6 =
                  replace False False dateRegex (''Last Updated: '' @ currentDate) content5;
                content7 =
                  (case (countries st, states st, cities st) of
                     (Some c, Some s, Some t) \<Rightarrow>
                       (let countriesK = c div 50 * 50;
                            statesK = s div 500 * 500;
                            citiesK = t div 1000 * 1000
                        in replace False False descriptionRegex
                             (descriptionText countriesK statesK citiesK) content6)
                   | _ \<Rightarrow> content6)
            in (content7, True))
         else (content5, False))"

text \<open>
  \<^verbatim>\<open>updateOverviewFile\<close> on the file system.  A failed read is caught and thrown again as
  an \<^verbatim>\<open>Error\<close>; the file is written only when \<^verbatim>\<open>updated\<close> is set.
\<close>

datatype error = FailedToUpdateOverviewFile

definition updateOverviewFile :: "today \<Rightarrow> stats \<Rightarrow> fs \<Rightarrow> error + (bool \<times> fs)" where
  "updateOverviewFile now st files =
     (case files OVERVIEW_FILE of
        None \<Rightarrow> Inl FailedToUpdateOverviewFile
      | Some content \<Rightarrow>
          (let (content', updated) = updateContent now st content
           in if updated then Inr (updated, files(OVERVIEW_FILE \<mapsto> content'))
              else Inr (updated, files)))"

text \<open>
  \<^verbatim>\<open>main\<close> of the statistics script once the README has been fetched: with no
  statistic found it returns before the overview file is read.
\<close>

definition main :: "today \<Rightarrow> string \<Rightarrow> fs \<Rightarrow> error + fs" where
  "main now readmeContent files =
     (let st = parseStatistics readmeContent;
          foundStats =
            length (filter (\<lambda>v. v \<noteq> None)
                      [regions st, subregions st, countries st, states st, cities st])
      in if foundStats = 0 then Inr files
         else (case updateOverviewFile now st files of
                 Inl e \<Rightarrow> Inl e
               | Inr (updated, files') \<Rightarrow> Inr files'))"

section \<open>The rendered changelog, block by block\<close>

text \<open>The lines of the items of a section, and a section that is left out when empty.\<close>

definition itemLines :: "string list \<Rightarrow> string" where
  "itemLines items = concat (map (\<lambda>item. ''- '' @ item @ ''\<newline>'') items)"

definition sectionBlock :: "string \<Rightarrow> string list \<Rightarrow> string" where
  "sectionBlock heading items =
     (if items = [] then [] else heading @ ''\<newline>'' @ itemLines items @ ''\<newline>'')"

text \<open>The opening line of an update block with the warning, if the release is breaking.\<close>

definition updateHead :: "dateLib \<Rightarrow> release \<Rightarrow> string" where
  \<open>updateHead L rel =
     ''<Update label="'' @ tag_name rel @ ''" description="Released '' @
     formatDate L (published_at rel) @ ''">\<newline>'' @
     (if breaking (parseReleaseBody (body rel))
      then ''<Warning>\<newline>'' @ breakingDesc (body rel) @ ''\<newline></Warning>\<newline>\<newline>''
      else [])\<close>

text \<open>The years in the order of their headings, each with its releases as rendered.\<close>

definition yearGroups :: "dateLib \<Rightarrow> release list \<Rightarrow> (int \<times> release list) list" where
  "yearGroups L releases =
     map (\<lambda>y. (y, yearReleases L (releasesByYear L releases) y))
       (sortedYears (releasesByYear L releases))"

definition yearBlock :: "dateLib \<Rightarrow> int \<times> release list \<Rightarrow> string" where
  "yearBlock L g =
     ''## '' @ showInt (fst g) @ ''\<newline>\<newline>'' @
     concat (map (\<lambda>rel. generateUpdateComponent L rel @ ''\<newline>'') (snd g))"

text \<open>Sample releases: twelve feature bullets, and three releases over two years.\<close>

definition twelveFeatures :: string where
  "twelveFeatures =
     ''* add a\<newline>* add b\<newline>* add c\<newline>* add d\<newline>* add e\<newline>* add f\<newline>'' @
     ''* add g\<newline>* add h\<newline>* add i\<newline>* add j\<newline>* add k\<newline>* add l''"

definition digitsToInt :: "string \<Rightarrow> int" where
  "digitsToInt s = foldl (\<lambda>acc c. 10 * acc + int (digitValue c)) 0 (filter isDigit s)"

definition sampleDates :: dateLib where
  "sampleDates =
     \<lparr>timeOf = digitsToInt,
      getFullYear = (\<lambda>s. digitsToInt (take 4 s)),
      formatDate = (\<lambda>s. s)\<rparr>"

definition sampleReleases :: "release list" where
  "sampleReleases =
     [\<lparr>tag_name = ''v2.0'', published_at = ''2024-01-05'', body = None, prerelease = False\<rparr>,
      \<lparr>tag_name = ''v1.0'', published_at = ''2023-03-10'', body = None, prerelease = False\<rparr>,
      \<lparr>tag_name = ''v2.1'', published_at = ''2024-06-20'', body = None, prerelease = False\<rparr>]"

text \<open>A sample day and sample statistics.\<close>

definition sampleDay :: today where
  "sampleDay = \<lparr>dayOfMonth = 21, monthOfYear = September, fullYear = 2025\<rparr>"

definition noStats :: stats where
  "noStats =
     \<lparr>regions = None, subregions = None, countries = None, states = None, cities = None\<rparr>"

definition regionsOnly :: stats where
  "regionsOnly =
     \<lparr>regions = Some 6, subregions = None, countries = None, states = None, cities = None\<rparr>"

section \<open>The description of a breaking change, as specified and as computed\<close>

text \<open>The text behind the first occurrence of a marker, if the marker occurs.\<close>

fun afterFirst :: "bool \<Rightarrow> string \<Rightarrow> string \<Rightarrow> string option" where
  "afterFirst i p [] = litMatch i p []"
| "afterFirst i p (c # cs) =
     (case litMatch i p (c # cs) of Some u \<Rightarrow> Some u | None \<Rightarrow> afterFirst i p cs)"

text \<open>
  The specification's wording: the remainder of the first line that holds the marker
  \<^verbatim>\<open>BREAKING CHANGE:\<close>, trimmed; the fixed sentence when no line holds it.
\<close>

fun remainderOfMarkedLine :: "string list \<Rightarrow> string" where
  "remainderOfMarkedLine [] = ''This release contains breaking changes.''"
| "remainderOfMarkedLine (l # ls) =
     (case afterFirst True ''BREAKING CHANGE:'' l of
        Some rest \<Rightarrow> trim rest
      | None \<Rightarrow> remainderOfMarkedLine ls)"

definition specBreakingDesc :: "string \<Rightarrow> string" where
  "specBreakingDesc b = remainderOfMarkedLine (split CHR 0x0A b)"

text \<open>
  What the pattern computes: behind the first \<^verbatim>\<open>BREAKING CHANGE\<close>, colons and white space
  are skipped, line breaks among them, and the text up to the next line break is taken.
\<close>

definition describedChange :: "string \<Rightarrow> string" where
  "describedChange b =
     (case afterFirst True ''BREAKING CHANGE'' b of
        Some u \<Rightarrow>
          trim (takeWhile (\<lambda>c. \<not> isLineTerminator c)
                  (dropWhile (\<lambda>c. c = CHR '':'' \<or> isSpace c) u))
      | None \<Rightarrow> ''This release contains breaking changes.'')"

definition markerOnOwnLine :: string where
  "markerOnOwnLine = ''BREAKING CHANGE:\<newline>The schema changed''"

definition bangBreaking :: string where
  "bangBreaking = ''Notes\<newline>!!breaking: schema changed''"

section \<open>Matches by position\<close>

text \<open>
  Whether and how far a pattern matches at the start of a text (the rest behind the first
  way the matcher finds), the replacement of the leftmost match in terms of it, and the
  number of positions of a text at which a pattern matches.
\<close>

definition headOf :: "bool \<Rightarrow> bool \<Rightarrow> regex \<Rightarrow> string \<Rightarrow> string option" where
  "headOf i m r s = (case rmatch i m r s of [] \<Rightarrow> None | (g, rest) # _ \<Rightarrow> Some rest)"

fun rep :: "(string \<Rightarrow> string option) \<Rightarrow> string \<Rightarrow> string \<Rightarrow> string" where
  "rep h new [] = (case h [] of Some rest \<Rightarrow> new @ rest | None \<Rightarrow> [])"
| "rep h new (c # cs) = (case h (c # cs) of Some rest \<Rightarrow> new @ rest | None \<Rightarrow> c # rep h new cs)"

fun occurrences :: "(string \<Rightarrow> string option) \<Rightarrow> string \<Rightarrow> nat" where
  "occurrences h [] = (if h [] = None then 0 else 1)"
| "occurrences h (c # cs) = (if h (c # cs) = None then 0 else 1) + occurrences h cs"

definition matchCount :: "regex \<Rightarrow> string \<Rightarrow> nat" where
  "matchCount r s = occurrences (headOf False False r) s"

text \<open>
  The three kinds of anchor, each as a function of the text at a position.  A number is
  read greedily: digits, then groups of a comma and digits.
\<close>

function skipGroups :: "string \<Rightarrow> string" where
  "skipGroups v =
     (case v of
        c # d # w \<Rightarrow>
          if c = CHR '','' \<and> isDigit d then skipGroups (dropWhile isDigit w) else v
      | _ \<Rightarrow> v)"
  by pat_completeness auto
termination
  by (relation "measure length") (auto simp add: length_dropWhile_le less_Suc_eq_le le_SucI)

declare skipGroups.simps [simp del]

definition numberRest :: "string \<Rightarrow> string option" where
  "numberRest u =
     (case u of
        [] \<Rightarrow> None
      | d # w \<Rightarrow> if isDigit d then Some (skipGroups (dropWhile isDigit w)) else None)"

definition anchorHead :: "string \<Rightarrow> string \<Rightarrow> string option" where
  "anchorHead color s =
     (case litMatch False (anchorOpen color) s of
        None \<Rightarrow> None
      | Some u \<Rightarrow>
          (case numberRest u of None \<Rightarrow> None | Some v \<Rightarrow> litMatch False ''</div>'' v))"

definition dateHead :: "string \<Rightarrow> string option" where
  "dateHead s =
     (case litMatch False ''Last Updated: '' s of
        None \<Rightarrow> None
      | Some u \<Rightarrow>
          (case u of
             [] \<Rightarrow> None
           | x # t \<Rightarrow> if x \<noteq> CHR ''<'' then Some (dropWhile (\<lambda>c. c \<noteq> CHR ''<'') t) else None))"

definition digitsRest :: "string \<Rightarrow> string option" where
  "digitsRest u =
     (case u of
        [] \<Rightarrow> None
      | d # w \<Rightarrow> if isDigit d then Some (dropWhile isDigit w) else None)"

definition descriptionHead :: "string \<Rightarrow> string option" where
  \<open>descriptionHead s =
     (case litMatch False ''description: "Complete geographical database with '' s of
        None \<Rightarrow> None
      | Some u1 \<Rightarrow>
     (case digitsRest u1 of
        None \<Rightarrow> None
      | Some u2 \<Rightarrow>
     (case litMatch False ''+ countries, '' u2 of
        None \<Rightarrow> None
      | Some u3 \<Rightarrow>
     (case digitsRest u3 of
        None \<Rightarrow> None
      | Some u4 \<Rightarrow>
     (case litMatch False ''+ states, and '' u4 of
        None \<Rightarrow> None
      | Some u5 \<Rightarrow>
     (case digitsRest u5 of
        None \<Rightarrow> None
      | Some u6 \<Rightarrow> litMatch False ''+ cities in multiple formats"'' u6))))))\<close>

text \<open>No match starts inside \<open>u\<close> when \<open>r\<close> follows it.\<close>

fun noStart :: "(string \<Rightarrow> string option) \<Rightarrow> string \<Rightarrow> string \<Rightarrow> bool" where
  "noStart h [] r = True"
| "noStart h (c # u) r = (h (c # u @ r) = None \<and> noStart h u r)"

text \<open>The colours of the five anchors, and the steps of the rewrite one by one.\<close>

definition colors :: "string list" where
  "colors = [''blue'', ''green'', ''purple'', ''orange'', ''red'']"

definition anchorStep :: "string \<Rightarrow> nat option \<Rightarrow> string \<Rightarrow> string" where
  "anchorStep color v s =
     (case v of
        Some n \<Rightarrow> replace False False (anchorRegex color) (anchorText color n) s
      | None \<Rightarrow> s)"

definition anchorSteps :: "stats \<Rightarrow> string \<Rightarrow> string" where
  "anchorSteps st s =
     anchorStep ''red'' (cities st)
       (anchorStep ''orange'' (states st)
          (anchorStep ''purple'' (countries st)
             (anchorStep ''green'' (subregions st)
                (anchorStep ''blue'' (regions st) s))))"

definition dateStep :: "today \<Rightarrow> string \<Rightarrow> string" where
  "dateStep now s = replace False False dateRegex (''Last Updated: '' @ getCurrentDate now) s"

definition descriptionStep :: "stats \<Rightarrow> string \<Rightarrow> string" where
  "descriptionStep st s =
     (case (countries st, states st, cities st) of
        (Some c, Some k, Some t) \<Rightarrow>
          replace False False descriptionRegex
            (descriptionText (c div 50 * 50) (k div 500 * 500) (t div 1000 * 1000)) s
      | _ \<Rightarrow> s)"

definition anyStatistic :: "stats \<Rightarrow> bool" where
  "anyStatistic st \<longleftrightarrow>
     regions st \<noteq> None \<or> subregions st \<noteq> None \<or> countries st \<noteq> None \<or>
     states st \<noteq> None \<or> cities st \<noteq> None"

section \<open>Properties of the regular expressions\<close>

lemma litMatch_drop: "litMatch i p s = Some u \<Longrightarrow> u = drop (length p) s \<and> length p \<le> length s"
  by (induction i p s rule: litMatch.induct) (auto split: if_splits)

lemma litMatch_exact:
  "litMatch False p s = (if prefix p s then Some (drop (length p) s) else None)"
  by (induction "False" p s rule: litMatch.induct) (auto simp add: sameChar_def)

lemma litMatch_append: "litMatch False p (p @ t) = Some t"
  by (simp add: litMatch_exact)

lemma later_None: "map (\<lambda>(g', s''). (later None g', s'')) xs = xs"
  by (induction xs) (auto simp add: later_def split: option.splits)

lemma rmatch_Seq_Lit:
  "rmatch i m (Seq (Lit p) r) s =
     (case litMatch i p s of None \<Rightarrow> [] | Some u \<Rightarrow> rmatch i m r u)"
  by (simp add: later_None split: option.splits)

lemma rmatch_Seq_Cls:
  "rmatch i m (Seq (Cls P) r) s =
     (case s of [] \<Rightarrow> [] | c # cs \<Rightarrow> if P c then rmatch i m r cs else [])"
  by (simp add: later_None split: list.splits)

lemma rmatch_Star_Cls:
  "rmatch i m (Star (Cls P)) s =
     (case s of
        [] \<Rightarrow> [(None, [])]
      | c # cs \<Rightarrow> if P c then rmatch i m (Star (Cls P)) cs @ [(None, c # cs)]
                 else [(None, c # cs)])"
  by (cases s) simp_all

lemma rmatch_Seq_Star_Cls_first:
  "\<exists>more. rmatch i m (Seq (Star (Cls P)) r) s = rmatch i m r (dropWhile P s) @ more"
proof (induction s)
  case Nil
  show ?case by (simp add: later_None)
next
  case (Cons c cs)
  show ?case
  proof (cases "P c")
    case False
    then show ?thesis by (simp add: later_None)
  next
    case True
    from Cons obtain more where
      m: "rmatch i m (Seq (Star (Cls P)) r) cs = rmatch i m r (dropWhile P cs) @ more"
      by blast
    have "rmatch i m (Seq (Star (Cls P)) r) (c # cs) =
            rmatch i m (Seq (Star (Cls P)) r) cs @ rmatch i m r (c # cs)"
      using True by (simp add: later_None)
    with m True show ?thesis by simp
  qed
qed

lemma rmatch_Seq_Star_Cls:
  assumes "\<And>c v. P c \<Longrightarrow> rmatch i m r (c # v) = []"
  shows "rmatch i m (Seq (Star (Cls P)) r) s = rmatch i m r (dropWhile P s)"
proof (induction s)
  case Nil
  show ?case by (simp add: later_None)
next
  case (Cons c cs)
  show ?case
  proof (cases "P c")
    case False
    then show ?thesis by (simp add: later_None)
  next
    case True
    have "rmatch i m (Seq (Star (Cls P)) r) (c # cs) =
            rmatch i m (Seq (Star (Cls P)) r) cs @ rmatch i m r (c # cs)"
      using True by (simp add: later_None)
    with Cons True assms show ?thesis by simp
  qed
qed


lemma rmatch_LazyStar_Cls:
  "rmatch i m (LazyStar (Cls Q)) s =
     (case s of
        [] \<Rightarrow> [(None, [])]
      | c # cs \<Rightarrow> (None, c # cs) # (if Q c then rmatch i m (LazyStar (Cls Q)) cs else []))"
  by (cases s) simp_all

text \<open>From here on the matcher is unfolded only where a proof asks for it.\<close>

declare rmatch.simps [simp del]

declare rexec.simps [simp del]

lemma lazy_to_line_end:
  "concat (map (\<lambda>(g, s'). if s' = [] \<or> isLineTerminator (hd s') then [(X s', s')] else [])
             (rmatch i m (LazyStar (Cls (\<lambda>c. \<not> isLineTerminator c))) s)) =
     [(X (dropWhile (\<lambda>c. \<not> isLineTerminator c) s), dropWhile (\<lambda>c. \<not> isLineTerminator c) s)]"
proof (induction s)
  case Nil
  show ?case by (subst rmatch_LazyStar_Cls) simp
next
  case (Cons c cs)
  show ?case
    by (subst rmatch_LazyStar_Cls) (simp add: Cons)
qed

lemma take_until: "take (length s - length (dropWhile Q s)) s = takeWhile Q s"
proof -
  have "length s - length (dropWhile Q s) = length (takeWhile Q s)"
    by (metis add_diff_cancel_right' length_append takeWhile_dropWhile_id)
  then show ?thesis
    by (metis append_eq_conv_conj takeWhile_dropWhile_id)
qed

lemma rmatch_Seq_Grp_Eol:
  "rmatch i m (Seq (Grp a) Eol) s =
     concat (map (\<lambda>(g, s'). if s' = [] \<or> (m \<and> isLineTerminator (hd s'))
                              then [(Some (take (length s - length s') s), s')] else [])
             (rmatch i m a s))"
proof -
  have "concat (map (\<lambda>(g, s'). map (\<lambda>(g', s''). (later g g', s'')) (rmatch i m Eol s'))
                 (map (\<lambda>(g, s'). (Some (take (length s - length s') s), s')) xs)) =
        concat (map (\<lambda>(g, s'). if s' = [] \<or> (m \<and> isLineTerminator (hd s'))
                              then [(Some (take (length s - length s') s), s')] else []) xs)"
    for xs :: "(string option \<times> string) list"
    by (induction xs) (auto simp add: later_def rmatch.simps)
  then show ?thesis by (simp only: rmatch.simps)
qed

lemma rmatch_group_to_line_end:
  "rmatch i True (Seq (Grp (LazyStar (Cls (\<lambda>c. \<not> isLineTerminator c)))) Eol) s =
     [(Some (takeWhile (\<lambda>c. \<not> isLineTerminator c) s),
       dropWhile (\<lambda>c. \<not> isLineTerminator c) s)]"
  by (simp only: rmatch_Seq_Grp_Eol simp_thms lazy_to_line_end take_until)

lemma rmatch_breakingRegex:
  "\<exists>more. rmatch True True breakingRegex s =
     (case litMatch True ''BREAKING CHANGE'' s of
        None \<Rightarrow> []
      | Some u \<Rightarrow>
          (Some (takeWhile (\<lambda>c. \<not> isLineTerminator c)
                   (dropWhile (\<lambda>c. c = CHR '':'' \<or> isSpace c) u)),
           dropWhile (\<lambda>c. \<not> isLineTerminator c)
             (dropWhile (\<lambda>c. c = CHR '':'' \<or> isSpace c) u)) # more)"
proof (cases "litMatch True ''BREAKING CHANGE'' s")
  case None
  then show ?thesis
    by (simp add: breakingRegex_def rmatch_Seq_Lit)
next
  case (Some u)
  obtain more where
    "rmatch True True
       (Seq (Star (Cls (\<lambda>c. c = CHR '':'' \<or> isSpace c)))
          (Seq (Grp (LazyStar (Cls (\<lambda>c. \<not> isLineTerminator c)))) Eol)) u =
     rmatch True True (Seq (Grp (LazyStar (Cls (\<lambda>c. \<not> isLineTerminator c)))) Eol)
       (dropWhile (\<lambda>c. c = CHR '':'' \<or> isSpace c) u) @ more"
    using rmatch_Seq_Star_Cls_first by blast
  with Some show ?thesis
    by (simp add: breakingRegex_def rmatch_Seq_Lit rmatch_group_to_line_end)
qed

lemma rexec_breakingRegex:
  "map_option groupText (rexec True True breakingRegex s) =
     map_option (\<lambda>u. takeWhile (\<lambda>c. \<not> isLineTerminator c)
                        (dropWhile (\<lambda>c. c = CHR '':'' \<or> isSpace c) u))
       (afterFirst True ''BREAKING CHANGE'' s)"
proof (induction s)
  case Nil
  from rmatch_breakingRegex [of "[]"] show ?case
    by (auto simp add: groupText_def rexec.simps)
next
  case (Cons c cs)
  from rmatch_breakingRegex [of "c # cs"] obtain more where
    r: "rmatch True True breakingRegex (c # cs) =
     (case litMatch True ''BREAKING CHANGE'' (c # cs) of
        None \<Rightarrow> []
      | Some u \<Rightarrow>
          (Some (takeWhile (\<lambda>c. \<not> isLineTerminator c)
                   (dropWhile (\<lambda>c. c = CHR '':'' \<or> isSpace c) u)),
           dropWhile (\<lambda>c. \<not> isLineTerminator c)
             (dropWhile (\<lambda>c. c = CHR '':'' \<or> isSpace c) u)) # more)"
    by blast
  show ?case
  proof (cases "litMatch True ''BREAKING CHANGE'' (c # cs)")
    case None
    with r Cons show ?thesis
      by (simp add: rexec.simps option.map_comp comp_def groupText_def del: litMatch.simps)
  next
    case (Some u)
    with r show ?thesis
      by (simp add: rexec.simps groupText_def del: litMatch.simps)
  qed
qed

section \<open>Properties of the Release Parser\<close>

lemma categorize_Cons:
  "categorize (line # rest) acc =
     (if isBullet line \<and> \<not> discarded (trim (drop 2 line)) then
        (case specCategory (trim (drop 2 line)) of
           Fix \<Rightarrow> categorize rest (acc\<lparr>fixes' := fixes' acc @ [trim (drop 2 line)]\<rparr>)
         | Feature \<Rightarrow> categorize rest (acc\<lparr>features := features acc @ [trim (drop 2 line)]\<rparr>)
         | Improvement \<Rightarrow>
             categorize rest (acc\<lparr>improvements := improvements acc @ [trim (drop 2 line)]\<rparr>))
      else categorize rest acc)"
proof (cases "isBullet line \<and> \<not> discarded (trim (drop 2 line))")
  case False
  then show ?thesis
    unfolding categorize.simps isBullet_def discarded_def Let_def by auto
next
  case True
  note kept = this
  show ?thesis
  proof (cases "specCategory (trim (drop 2 line))")
    case Fix
    then have "includes' (toLowerCase (trim (drop 2 line))) ''fix'' \<or>
               includes' (toLowerCase (trim (drop 2 line))) ''resolve'' \<or>
               includes' (toLowerCase (trim (drop 2 line))) ''solved''"
      unfolding specCategory_def containsCI_def by (metis category.distinct(1,3))
    with kept Fix show ?thesis
      unfolding categorize.simps isBullet_def discarded_def Let_def by auto
  next
    case Feature
    then have a: "\<not> (includes' (toLowerCase (trim (drop 2 line))) ''fix'' \<or>
               includes' (toLowerCase (trim (drop 2 line))) ''resolve'' \<or>
               includes' (toLowerCase (trim (drop 2 line))) ''solved'')"
      unfolding specCategory_def containsCI_def by (metis category.distinct(1))
    from Feature have b: "includes' (toLowerCase (trim (drop 2 line))) ''add'' \<or>
               includes' (toLowerCase (trim (drop 2 line))) ''new'' \<or>
               includes' (toLowerCase (trim (drop 2 line))) ''support'' \<and>
               \<not> includes' (toLowerCase (trim (drop 2 line))) ''fix''"
      unfolding specCategory_def containsCI_def by (metis category.distinct(1,5))
    from kept Feature a b show ?thesis
      unfolding categorize.simps isBullet_def discarded_def Let_def by auto
  next
    case Improvement
    then have a: "\<not> (includes' (toLowerCase (trim (drop 2 line))) ''fix'' \<or>
               includes' (toLowerCase (trim (drop 2 line))) ''resolve'' \<or>
               includes' (toLowerCase (trim (drop 2 line))) ''solved'')"
      unfolding specCategory_def containsCI_def by (metis category.distinct(3))
    from Improvement have b: "\<not> (includes' (toLowerCase (trim (drop 2 line))) ''add'' \<or>
               includes' (toLowerCase (trim (drop 2 line))) ''new'' \<or>
               includes' (toLowerCase (trim (drop 2 line))) ''support'' \<and>
               \<not> includes' (toLowerCase (trim (drop 2 line))) ''fix'')"
      unfolding specCategory_def containsCI_def by (metis category.distinct(3,5))
    from kept Improvement a b show ?thesis
      unfolding categorize.simps isBullet_def discarded_def Let_def by auto
  qed
qed


lemma categorize_filter:
  "categorize ls acc =
     acc\<lparr>features := features acc @
            filter (\<lambda>i. \<not> discarded i \<and> specCategory i = Feature)
              (map (\<lambda>line. trim (drop 2 line)) (filter isBullet ls)),
         improvements := improvements acc @
            filter (\<lambda>i. \<not> discarded i \<and> specCategory i = Improvement)
              (map (\<lambda>line. trim (drop 2 line)) (filter isBullet ls)),
         fixes' := fixes' acc @
            filter (\<lambda>i. \<not> discarded i \<and> specCategory i = Fix)
              (map (\<lambda>line. trim (drop 2 line)) (filter isBullet ls))\<rparr>"
proof (induction ls arbitrary: acc)
  case Nil
  show ?case by simp
next
  case (Cons line rest)
  show ?case
  proof (cases "isBullet line")
    case False
    then show ?thesis
      by (simp add: categorize_Cons Cons.IH del: categorize.simps)
  next
    case True
    note bullet = this
    show ?thesis
    proof (cases "discarded (trim (drop 2 line))")
      case True
      with bullet show ?thesis
        by (simp add: categorize_Cons Cons.IH del: categorize.simps)
    next
      case False
      with bullet show ?thesis
        by (cases "specCategory (trim (drop 2 line))")
           (simp_all add: categorize_Cons Cons.IH del: categorize.simps)
    qed
  qed
qed

lemma bodyLines_empty: "bodyLines [] = []"
  by (simp add: bodyLines_def trim_def)

lemma parse_lists:
  "features (parseReleaseBody (Some b)) =
     filter (\<lambda>i. specCategory i = Feature) (keptItems b)"
  "improvements (parseReleaseBody (Some b)) =
     filter (\<lambda>i. specCategory i = Improvement) (keptItems b)"
  "fixes' (parseReleaseBody (Some b)) =
     filter (\<lambda>i. specCategory i = Fix) (keptItems b)"
  by (simp_all add: parseReleaseBody_def categorize_filter keptItems_def bulletItems_def
        bodyLines_empty conj_commute)

lemma parse_absent:
  "parseReleaseBody None = \<lparr>features = [], improvements = [], fixes' = [], breaking = False\<rparr>"
  by (simp add: parseReleaseBody_def)


lemma mset_by_category:
  "mset (filter (\<lambda>i. specCategory i = Feature) xs) +
   mset (filter (\<lambda>i. specCategory i = Improvement) xs) +
   mset (filter (\<lambda>i. specCategory i = Fix) xs) = mset xs"
proof (induction xs)
  case Nil
  show ?case by simp
next
  case (Cons x xs)
  then show ?case by (cases "specCategory x") simp_all
qed

lemma subseq_kept: "subseq (filter P (keptItems b)) (bulletItems b)"
  unfolding keptItems_def by (rule subseq_order.trans[OF subseq_filter_left subseq_filter_left])

lemma parse_exampleBody:
  "parseReleaseBody (Some exampleBody) =
     \<lparr>features = [''Added new endpoint''], improvements = [],
      fixes' = [''Fixed null pointer bug'', ''Fix: add retry to the fetcher''],
      breaking = False\<rparr>"
  by code_simp

text \<open>
  C1.  The parser puts every bullet item that is not discarded into the category of the
  first matching rule, read case-insensitively: fix (contains fix, resolve or solved),
  else feature (contains add or new, or support without fix), else improvement.  A kept
  item containing both fix and add is a fix and nothing else, and an item that meets a
  discard rule is in none of the three lists.
\<close>

theorem parser_classifies_by_first_rule:
  "fixes' (parseReleaseBody (Some b)) =
     filter (\<lambda>i. specCategory i = Fix) (keptItems b) \<and>
   features (parseReleaseBody (Some b)) =
     filter (\<lambda>i. specCategory i = Feature) (keptItems b) \<and>
   improvements (parseReleaseBody (Some b)) =
     filter (\<lambda>i. specCategory i = Improvement) (keptItems b) \<and>
   (\<forall>item \<in> set (keptItems b).
      containsCI item ''fix'' \<and> containsCI item ''add'' \<longrightarrow>
        item \<in> set (fixes' (parseReleaseBody (Some b))) \<and>
        item \<notin> set (features (parseReleaseBody (Some b))) \<and>
        item \<notin> set (improvements (parseReleaseBody (Some b)))) \<and>
   (\<forall>item \<in> set (bulletItems b).
      discarded item \<longrightarrow>
        item \<notin> set (fixes' (parseReleaseBody (Some b))) \<and>
        item \<notin> set (features (parseReleaseBody (Some b))) \<and>
        item \<notin> set (improvements (parseReleaseBody (Some b))))"
proof -
  have fix_add: "specCategory item = Fix" if "containsCI item ''fix''" for item
    using that by (simp add: specCategory_def)
  have "\<forall>item \<in> set (keptItems b).
      containsCI item ''fix'' \<and> containsCI item ''add'' \<longrightarrow>
        item \<in> set (fixes' (parseReleaseBody (Some b))) \<and>
        item \<notin> set (features (parseReleaseBody (Some b))) \<and>
        item \<notin> set (improvements (parseReleaseBody (Some b)))"
    by (auto simp add: parse_lists dest: fix_add)
  moreover have "\<forall>item \<in> set (bulletItems b).
      discarded item \<longrightarrow>
        item \<notin> set (fixes' (parseReleaseBody (Some b))) \<and>
        item \<notin> set (features (parseReleaseBody (Some b))) \<and>
        item \<notin> set (improvements (parseReleaseBody (Some b)))"
    by (simp add: parse_lists keptItems_def)
  ultimately show ?thesis
    by (simp only: parse_lists simp_thms)
qed

theorem parser_classifies_by_first_rule_witness:
  "''Fix: add retry to the fetcher'' \<in> set (keptItems exampleBody) \<and>
   containsCI ''Fix: add retry to the fetcher'' ''fix'' \<and>
   containsCI ''Fix: add retry to the fetcher'' ''add'' \<and>
   ''Fix: add retry to the fetcher'' \<in> set (fixes' (parseReleaseBody (Some exampleBody))) \<and>
   ''Fix: add retry to the fetcher'' \<notin> set (features (parseReleaseBody (Some exampleBody))) \<and>
   ''@bob made their first contribution in #42'' \<in> set (bulletItems exampleBody) \<and>
   discarded ''@bob made their first contribution in #42'' \<and>
   ''@bob made their first contribution in #42''
      \<notin> set (features (parseReleaseBody (Some exampleBody)))"
proof -
  have h1: "''Fix: add retry to the fetcher'' \<in> set (keptItems exampleBody)"
    by code_simp
  have h2: "containsCI ''Fix: add retry to the fetcher'' ''fix'' \<and>
            containsCI ''Fix: add retry to the fetcher'' ''add''"
    by code_simp
  have h3: "''@bob made their first contribution in #42'' \<in> set (bulletItems exampleBody)"
    by code_simp
  have h4: "discarded ''@bob made their first contribution in #42''"
    by code_simp
  from parser_classifies_by_first_rule [of exampleBody] h1 h2 h3 h4 show ?thesis
    by blast
qed

text \<open>
  C8.  The three lists partition the kept bullet items: together they hold each kept item
  as often as the body does, no item is in two lists, and each list is a subsequence of
  the bullet items of the body, so the order of the body is kept within each category.
\<close>

theorem parser_partitions_bullets:
  "mset (features (parseReleaseBody (Some b))) +
   mset (improvements (parseReleaseBody (Some b))) +
   mset (fixes' (parseReleaseBody (Some b))) = mset (keptItems b) \<and>
   set (features (parseReleaseBody (Some b))) \<inter>
     set (improvements (parseReleaseBody (Some b))) = {} \<and>
   set (features (parseReleaseBody (Some b))) \<inter>
     set (fixes' (parseReleaseBody (Some b))) = {} \<and>
   set (improvements (parseReleaseBody (Some b))) \<inter>
     set (fixes' (parseReleaseBody (Some b))) = {} \<and>
   subseq (features (parseReleaseBody (Some b))) (bulletItems b) \<and>
   subseq (improvements (parseReleaseBody (Some b))) (bulletItems b) \<and>
   subseq (fixes' (parseReleaseBody (Some b))) (bulletItems b)"
proof -
  have "mset (features (parseReleaseBody (Some b))) +
        mset (improvements (parseReleaseBody (Some b))) +
        mset (fixes' (parseReleaseBody (Some b))) = mset (keptItems b)"
    by (simp only: parse_lists mset_by_category)
  moreover have
    "set (features (parseReleaseBody (Some b))) \<inter>
       set (improvements (parseReleaseBody (Some b))) = {}"
    "set (features (parseReleaseBody (Some b))) \<inter>
       set (fixes' (parseReleaseBody (Some b))) = {}"
    "set (improvements (parseReleaseBody (Some b))) \<inter>
       set (fixes' (parseReleaseBody (Some b))) = {}"
    by (auto simp add: parse_lists)
  moreover have
    "subseq (features (parseReleaseBody (Some b))) (bulletItems b)"
    "subseq (improvements (parseReleaseBody (Some b))) (bulletItems b)"
    "subseq (fixes' (parseReleaseBody (Some b))) (bulletItems b)"
    by (simp_all only: parse_lists subseq_kept)
  ultimately show ?thesis by (intro conjI)
qed

section \<open>Properties of the Changelog Renderer\<close>

lemma foldl_items:
  "foldl (\<lambda>content item. content @ ''- '' @ item @ ''\<newline>'') acc items =
     acc @ itemLines items"
  by (induction items arbitrary: acc) (simp_all add: itemLines_def)

lemma section_step:
  "(if length xs > 0
    then foldl (\<lambda>content item. content @ ''- '' @ item @ ''\<newline>'')
           (acc @ hl) (take 8 xs) @ ''\<newline>''
    else acc) = acc @ (if xs = [] then [] else hl @ itemLines (take 8 xs) @ ''\<newline>'')"
proof (cases "xs = []")
  case True
  then show ?thesis by simp
next
  case False
  then have "length xs > 0" by simp
  then show ?thesis using False by (simp only: foldl_items if_True if_False append_assoc)
qed

lemma take8_empty: "take 8 xs = [] \<longleftrightarrow> xs = []"
  by (cases xs) simp_all

lemma generateUpdateComponent_blocks:
  "generateUpdateComponent L rel =
     updateHead L rel @
     sectionBlock ''## New Features'' (take 8 (features (parseReleaseBody (body rel)))) @
     sectionBlock ''## Improvements'' (take 8 (improvements (parseReleaseBody (body rel)))) @
     sectionBlock ''## Bug Fixes'' (take 8 (fixes' (parseReleaseBody (body rel)))) @
     ''</Update>\<newline>''"
  unfolding generateUpdateComponent_def Let_def
  by (simp only: section_step) (simp add: sectionBlock_def updateHead_def take8_empty)

text \<open>
  C6.  An update block is its opening, then the sections New Features, Improvements and
  Bug Fixes, then the closing line.  Each section lists the first eight items of its
  category, so never more than eight and exactly eight of twelve, and a section of an
  empty category is the empty text: its heading is not written.
\<close>

theorem update_block_caps_sections:
  "generateUpdateComponent L rel =
     updateHead L rel @
     sectionBlock ''## New Features'' (take 8 (features (parseReleaseBody (body rel)))) @
     sectionBlock ''## Improvements'' (take 8 (improvements (parseReleaseBody (body rel)))) @
     sectionBlock ''## Bug Fixes'' (take 8 (fixes' (parseReleaseBody (body rel)))) @
     ''</Update>\<newline>'' \<and>
   length (take 8 (features (parseReleaseBody (body rel)))) \<le> 8 \<and>
   length (take 8 (improvements (parseReleaseBody (body rel)))) \<le> 8 \<and>
   length (take 8 (fixes' (parseReleaseBody (body rel)))) \<le> 8 \<and>
   (length (features (parseReleaseBody (body rel))) = 12 \<longrightarrow>
      length (take 8 (features (parseReleaseBody (body rel)))) = 8 \<and>
      take 8 (features (parseReleaseBody (body rel))) =
        map (\<lambda>k. features (parseReleaseBody (body rel)) ! k) [0..<8]) \<and>
   (features (parseReleaseBody (body rel)) = [] \<longrightarrow>
      sectionBlock ''## New Features'' (take 8 (features (parseReleaseBody (body rel)))) = []) \<and>
   (improvements (parseReleaseBody (body rel)) = [] \<longrightarrow>
      sectionBlock ''## Improvements'' (take 8 (improvements (parseReleaseBody (body rel)))) = []) \<and>
   (fixes' (parseReleaseBody (body rel)) = [] \<longrightarrow>
      sectionBlock ''## Bug Fixes'' (take 8 (fixes' (parseReleaseBody (body rel)))) = [])"
proof -
  have nth8: "take 8 xs = map (\<lambda>k. xs ! k) [0..<8]" if "length xs = 12"
    for xs :: "string list"
    using that by (intro nth_equalityI) simp_all
  show ?thesis
  proof (intro conjI impI)
    show "generateUpdateComponent L rel =
      updateHead L rel @
      sectionBlock ''## New Features'' (take 8 (features (parseReleaseBody (body rel)))) @
      sectionBlock ''## Improvements'' (take 8 (improvements (parseReleaseBody (body rel)))) @
      sectionBlock ''## Bug Fixes'' (take 8 (fixes' (parseReleaseBody (body rel)))) @
      ''</Update>\<newline>''"
      by (rule generateUpdateComponent_blocks)
  qed (simp_all add: nth8 sectionBlock_def)
qed

theorem update_block_caps_sections_witness:
  "length (features (parseReleaseBody (Some twelveFeatures))) = 12 \<and>
   improvements (parseReleaseBody (Some twelveFeatures)) = [] \<and>
   fixes' (parseReleaseBody (Some twelveFeatures)) = [] \<and>
   generateUpdateComponent sampleDates
     \<lparr>tag_name = ''v3'', published_at = ''2025-01-01'', body = Some twelveFeatures,
      prerelease = False\<rparr> =
     updateHead sampleDates
       \<lparr>tag_name = ''v3'', published_at = ''2025-01-01'', body = Some twelveFeatures,
        prerelease = False\<rparr> @
     sectionBlock ''## New Features''
       [''add a'', ''add b'', ''add c'', ''add d'', ''add e'', ''add f'', ''add g'', ''add h''] @
     ''</Update>\<newline>''"
proof -
  have p: "parseReleaseBody (Some twelveFeatures) =
     \<lparr>features = [''add a'', ''add b'', ''add c'', ''add d'', ''add e'', ''add f'',
                   ''add g'', ''add h'', ''add i'', ''add j'', ''add k'', ''add l''],
      improvements = [], fixes' = [], breaking = False\<rparr>"
    by code_simp
  have h: "length (features (parseReleaseBody (Some twelveFeatures))) = 12"
    by (simp add: p)
  from update_block_caps_sections [of sampleDates
     "\<lparr>tag_name = ''v3'', published_at = ''2025-01-01'', body = Some twelveFeatures,
       prerelease = False\<rparr>"] h
  show ?thesis by (simp add: p)
qed

subsection \<open>Grouping by year\<close>

lemma map_of_bump:
  "map_of (map (\<lambda>(k, v). if k = y then (k, v @ [r]) else (k, v)) obj) z =
     (if z = y then map_option (\<lambda>v. v @ [r]) (map_of obj z) else map_of obj z)"
  by (induction obj) auto

lemma keys_bump:
  "map fst (map (\<lambda>(k, v). if k = y then (k, v @ [r]) else (k, v)) obj) = map fst obj"
  by (induction obj) auto

lemma keys_addRelease:
  "map fst (addRelease L obj r) =
     (if getFullYear L (published_at r) \<in> set (map fst obj) then map fst obj
      else map fst obj @ [getFullYear L (published_at r)])"
  by (auto simp add: addRelease_def Let_def keys_bump map_of_eq_None_iff)

lemma map_of_addRelease:
  "map_of (addRelease L obj r) z =
     (if z = getFullYear L (published_at r)
      then Some ((case map_of obj z of None \<Rightarrow> [] | Some v \<Rightarrow> v) @ [r])
      else map_of obj z)"
  by (auto simp add: addRelease_def Let_def map_of_bump map_add_def split: option.splits)

lemma keys_fold:
  "set (map fst (foldl (addRelease L) obj rs)) =
     set (map fst obj) \<union> (\<lambda>r. getFullYear L (published_at r)) ` set rs"
  by (induction rs arbitrary: obj) (auto simp add: keys_addRelease simp del: set_map)

lemma distinct_fold:
  "distinct (map fst obj) \<Longrightarrow> distinct (map fst (foldl (addRelease L) obj rs))"
  by (induction rs arbitrary: obj) (auto simp add: keys_addRelease)

lemma map_of_fold:
  "(case map_of (foldl (addRelease L) obj rs) z of None \<Rightarrow> [] | Some v \<Rightarrow> v) =
     (case map_of obj z of None \<Rightarrow> [] | Some v \<Rightarrow> v) @
     filter (\<lambda>r. getFullYear L (published_at r) = z) rs"
  by (induction rs arbitrary: obj) (auto simp add: map_of_addRelease)

lemma keys_releasesByYear:
  "set (map fst (releasesByYear L rs)) = (\<lambda>r. getFullYear L (published_at r)) ` set rs"
  "distinct (map fst (releasesByYear L rs))"
  by (simp_all add: releasesByYear_def keys_fold distinct_fold del: set_map)

lemma entries_releasesByYear:
  "(case map_of (releasesByYear L rs) z of None \<Rightarrow> [] | Some v \<Rightarrow> v) =
     filter (\<lambda>r. getFullYear L (published_at r) = z) rs"
  by (simp add: releasesByYear_def map_of_fold)

lemma objectKeys_set: "set (objectKeys obj) = set (map fst obj)"
  by (auto simp add: objectKeys_def)

lemma objectKeys_distinct: "distinct (map fst obj) \<Longrightarrow> distinct (objectKeys obj)"
  by (auto simp add: objectKeys_def)

lemma descending_sort:
  "distinct ys \<Longrightarrow> sorted_wrt (\<lambda>a b. a > b) (sort_key (\<lambda>y. - y) (ys :: int list))"
proof -
  assume d: "distinct ys"
  have "sorted (map (\<lambda>y. - y) (sort_key (\<lambda>y. - y) ys))" by (rule sorted_sort_key)
  then have "sorted_wrt (\<lambda>a b. b \<le> a) (sort_key (\<lambda>y. - y) ys)"
    by (simp add: sorted_map)
  moreover have "distinct (sort_key (\<lambda>y. - y) ys)" using d by simp
  ultimately show ?thesis
    by (rule_tac sorted_wrt_mono_rel[rotated]) 
       (auto simp add: sorted_wrt_iff_nth_less distinct_conv_nth order_le_less)
qed

lemma sortedYears_props:
  "sorted_wrt (\<lambda>a b. a > b) (sortedYears (releasesByYear L rs))"
  "set (sortedYears (releasesByYear L rs)) = (\<lambda>r. getFullYear L (published_at r)) ` set rs"
  by (simp_all add: sortedYears_def descending_sort objectKeys_distinct objectKeys_set
        keys_releasesByYear del: set_map)

lemma yearReleases_props:
  "mset (yearReleases L (releasesByYear L rs) y) =
     mset (filter (\<lambda>r. getFullYear L (published_at r) = y) rs)"
  "sorted_wrt (\<lambda>a b. timeOf L (published_at a) \<ge> timeOf L (published_at b))
     (yearReleases L (releasesByYear L rs) y)"
proof -
  show "mset (yearReleases L (releasesByYear L rs) y) =
     mset (filter (\<lambda>r. getFullYear L (published_at r) = y) rs)"
    by (simp add: yearReleases_def entries_releasesByYear)
  have "sorted (map (\<lambda>rel. - timeOf L (published_at rel))
          (yearReleases L (releasesByYear L rs) y))"
    unfolding yearReleases_def by (rule sorted_sort_key)
  then show "sorted_wrt (\<lambda>a b. timeOf L (published_at a) \<ge> timeOf L (published_at b))
     (yearReleases L (releasesByYear L rs) y)"
    by (simp add: sorted_map)
qed

lemma foldl_components:
  "foldl (\<lambda>content rel. content @ generateUpdateComponent L rel @ ''\<newline>'') acc rs =
     acc @ concat (map (\<lambda>rel. generateUpdateComponent L rel @ ''\<newline>'') rs)"
  by (induction rs arbitrary: acc) simp_all

lemma foldl_years:
  "foldl (\<lambda>content y.
            foldl (\<lambda>content rel. content @ generateUpdateComponent L rel @ ''\<newline>'')
              (content @ ''## '' @ showInt y @ ''\<newline>\<newline>'') (yearReleases L obj y))
     acc ys =
   acc @ concat (map (\<lambda>y. yearBlock L (y, yearReleases L obj y)) ys)"
  by (induction ys arbitrary: acc) (simp_all add: foldl_components yearBlock_def)

lemma changelog_blocks:
  "generateChangelogContent L rs =
     frontMatter @ concat (map (yearBlock L) (yearGroups L rs)) @ footer"
  unfolding generateChangelogContent_def Let_def foldl_years yearGroups_def
  by (simp add: comp_def)


text \<open>
  C5.  The changelog is the front matter, one block per year and the footer.  The years
  of the blocks are strictly descending, so no year has two headings, and they are
  exactly the calendar years of the releases.  The block of a year holds the releases
  of that year, each once, in descending order of their publish timestamps.
\<close>

theorem changelog_years_descending:
  "generateChangelogContent L rs =
     frontMatter @ concat (map (yearBlock L) (yearGroups L rs)) @ footer \<and>
   sorted_wrt (\<lambda>a b. a > b) (map fst (yearGroups L rs)) \<and>
   set (map fst (yearGroups L rs)) = (\<lambda>r. getFullYear L (published_at r)) ` set rs \<and>
   (\<forall>g \<in> set (yearGroups L rs).
      mset (snd g) = mset (filter (\<lambda>r. getFullYear L (published_at r) = fst g) rs) \<and>
      sorted_wrt (\<lambda>a b. timeOf L (published_at a) \<ge> timeOf L (published_at b)) (snd g))"
proof (intro conjI ballI)
  show "generateChangelogContent L rs =
     frontMatter @ concat (map (yearBlock L) (yearGroups L rs)) @ footer"
    by (rule changelog_blocks)
  have keys: "map fst (yearGroups L rs) = sortedYears (releasesByYear L rs)"
    by (simp add: yearGroups_def comp_def)
  show "sorted_wrt (\<lambda>a b. a > b) (map fst (yearGroups L rs))"
    by (simp only: keys sortedYears_props)
  show "set (map fst (yearGroups L rs)) = (\<lambda>r. getFullYear L (published_at r)) ` set rs"
    by (simp only: keys sortedYears_props)
next
  fix g assume "g \<in> set (yearGroups L rs)"
  then have g: "snd g = yearReleases L (releasesByYear L rs) (fst g)"
    by (auto simp add: yearGroups_def)
  show "mset (snd g) = mset (filter (\<lambda>r. getFullYear L (published_at r) = fst g) rs)"
    by (simp only: g yearReleases_props)
  show "sorted_wrt (\<lambda>a b. timeOf L (published_at a) \<ge> timeOf L (published_at b)) (snd g)"
    by (simp only: g yearReleases_props)
qed

theorem changelog_years_descending_witness:
  "(2024, [\<lparr>tag_name = ''v2.1'', published_at = ''2024-06-20'', body = None, prerelease = False\<rparr>,
           \<lparr>tag_name = ''v2.0'', published_at = ''2024-01-05'', body = None, prerelease = False\<rparr>])
     \<in> set (yearGroups sampleDates sampleReleases) \<and>
   map fst (yearGroups sampleDates sampleReleases) = [2024, 2023] \<and>
   sorted_wrt (\<lambda>a b. timeOf sampleDates (published_at a) \<ge> timeOf sampleDates (published_at b))
     [\<lparr>tag_name = ''v2.1'', published_at = ''2024-06-20'', body = None, prerelease = False\<rparr>,
      \<lparr>tag_name = ''v2.0'', published_at = ''2024-01-05'', body = None, prerelease = False\<rparr>]"
proof -
  have e: "yearGroups sampleDates sampleReleases =
     [(2024, [\<lparr>tag_name = ''v2.1'', published_at = ''2024-06-20'', body = None,
               prerelease = False\<rparr>,
              \<lparr>tag_name = ''v2.0'', published_at = ''2024-01-05'', body = None,
               prerelease = False\<rparr>]),
      (2023, [\<lparr>tag_name = ''v1.0'', published_at = ''2023-03-10'', body = None,
               prerelease = False\<rparr>])]"
    by code_simp
  have m: "(2024, [\<lparr>tag_name = ''v2.1'', published_at = ''2024-06-20'', body = None,
               prerelease = False\<rparr>,
              \<lparr>tag_name = ''v2.0'', published_at = ''2024-01-05'', body = None,
               prerelease = False\<rparr>]) \<in> set (yearGroups sampleDates sampleReleases)"
    by (simp only: e list.set insertI1)
  from changelog_years_descending [of sampleDates sampleReleases]
  have "\<forall>g \<in> set (yearGroups sampleDates sampleReleases).
      sorted_wrt (\<lambda>a b. timeOf sampleDates (published_at a) \<ge> timeOf sampleDates (published_at b))
        (snd g)"
    by blast
  from bspec [OF this m] e m show ?thesis by simp
qed

section \<open>Properties of the file updates\<close>

lemma updateContent_noStats: "updateContent now noStats doc = (doc, False)"
  by (simp add: updateContent_def noStats_def)

text \<open>
  C4.  With no statistic found the rewriter gives the document back unchanged and
  reports no update; the overview file is not written; and the script, on a README in
  which no label matches, leaves every file as it was.
\<close>

theorem no_statistics_document_unchanged:
  "updateContent now noStats doc = (doc, False) \<and>
   updateOverviewFile now noStats (files(OVERVIEW_FILE \<mapsto> doc)) =
     Inr (False, files(OVERVIEW_FILE \<mapsto> doc)) \<and>
   (parseStatistics readmeContent = noStats \<longrightarrow> main now readmeContent files = Inr files)"
proof (intro conjI impI)
  show "updateContent now noStats doc = (doc, False)"
    by (rule updateContent_noStats)
  show "updateOverviewFile now noStats (files(OVERVIEW_FILE \<mapsto> doc)) =
     Inr (False, files(OVERVIEW_FILE \<mapsto> doc))"
    by (simp add: updateOverviewFile_def updateContent_noStats)
  assume "parseStatistics readmeContent = noStats"
  then show "main now readmeContent files = Inr files"
    by (simp add: main_def noStats_def)
qed

theorem no_statistics_document_unchanged_witness:
  "parseStatistics ''No figures in this README.'' = noStats \<and>
   main sampleDay ''No figures in this README.'' [OVERVIEW_FILE \<mapsto> ''Last Updated: never''] =
     Inr [OVERVIEW_FILE \<mapsto> ''Last Updated: never'']"
proof -
  have h: "parseStatistics ''No figures in this README.'' = noStats"
    by code_simp
  from no_statistics_document_unchanged
         [where now = sampleDay and readmeContent = "''No figures in this README.''"
            and files = "[OVERVIEW_FILE \<mapsto> ''Last Updated: never'']"] h
  show ?thesis by simp
qed

lemma backup_path: "CHANGELOG_PATH @ ''.backup'' \<noteq> CHANGELOG_PATH"
  by simp

lemma sample_update:
  "updateContent sampleDay regionsOnly ''Last Updated: never'' =
     (''Last Updated: 21st September 2025'', True)"
  by code_simp

text \<open>
  C9 as stated fails for the overview pipeline: the run below overwrites the overview
  file, and afterwards no file holds its previous content.
\<close>

theorem overview_overwritten_without_backup:
  "updateOverviewFile sampleDay regionsOnly [OVERVIEW_FILE \<mapsto> ''Last Updated: never''] =
     Inr (True, [OVERVIEW_FILE \<mapsto> ''Last Updated: 21st September 2025'']) \<and>
   ''Last Updated: never'' \<notin> ran [OVERVIEW_FILE \<mapsto> ''Last Updated: 21st September 2025'']"
  by (simp add: updateOverviewFile_def sample_update)

text \<open>
  C9, amended.  A run of the changelog pipeline on an existing changelog copies the
  previous content to the backup path and then writes the new changelog.  A run of the
  overview pipeline changes no path but the overview file: it writes no backup.
\<close>

theorem backup_only_for_changelog:
  "(files CHANGELOG_PATH = Some old \<longrightarrow>
      syncChangelog L rs files (CHANGELOG_PATH @ ''.backup'') = Some old \<and>
      syncChangelog L rs files CHANGELOG_PATH = Some (generateChangelogContent L rs)) \<and>
   (updateOverviewFile now st files = Inr (updated, files') \<longrightarrow>
      (\<forall>p. p \<noteq> OVERVIEW_FILE \<longrightarrow> files' p = files p))"
proof (intro conjI impI allI)
  assume "files CHANGELOG_PATH = Some old"
  then show "syncChangelog L rs files (CHANGELOG_PATH @ ''.backup'') = Some old"
    by (simp add: syncChangelog_def Let_def)
  show "syncChangelog L rs files CHANGELOG_PATH = Some (generateChangelogContent L rs)"
    by (simp add: syncChangelog_def Let_def)
next
  fix p
  assume "updateOverviewFile now st files = Inr (updated, files')" and "p \<noteq> OVERVIEW_FILE"
  then show "files' p = files p"
    by (auto simp add: updateOverviewFile_def Let_def split: option.splits prod.splits if_splits)
qed

theorem backup_only_for_changelog_witness:
  "[CHANGELOG_PATH \<mapsto> ''old changelog''] CHANGELOG_PATH = Some ''old changelog'' \<and>
   syncChangelog sampleDates sampleReleases [CHANGELOG_PATH \<mapsto> ''old changelog'']
     (CHANGELOG_PATH @ ''.backup'') = Some ''old changelog'' \<and>
   updateOverviewFile sampleDay regionsOnly [OVERVIEW_FILE \<mapsto> ''Last Updated: never''] =
     Inr (True, [OVERVIEW_FILE \<mapsto> ''Last Updated: 21st September 2025'']) \<and>
   CHANGELOG_PATH \<noteq> OVERVIEW_FILE \<and>
   [OVERVIEW_FILE \<mapsto> ''Last Updated: 21st September 2025''] CHANGELOG_PATH =
     [OVERVIEW_FILE \<mapsto> ''Last Updated: never''] CHANGELOG_PATH"
proof -
  have h1: "[CHANGELOG_PATH \<mapsto> ''old changelog''] CHANGELOG_PATH = Some ''old changelog''"
    by simp
  have h2: "updateOverviewFile sampleDay regionsOnly [OVERVIEW_FILE \<mapsto> ''Last Updated: never''] =
     Inr (True, [OVERVIEW_FILE \<mapsto> ''Last Updated: 21st September 2025''])"
    by (simp add: updateOverviewFile_def sample_update)
  have h3: "CHANGELOG_PATH \<noteq> OVERVIEW_FILE"
    by (simp add: CHANGELOG_PATH_def OVERVIEW_FILE_def)
  from backup_only_for_changelog
         [where files = "[CHANGELOG_PATH \<mapsto> ''old changelog'']" and old = "''old changelog''"
            and L = sampleDates and rs = sampleReleases]
       backup_only_for_changelog
         [where files = "[OVERVIEW_FILE \<mapsto> ''Last Updated: never'']" and now = sampleDay
            and st = regionsOnly and updated = True
            and files' = "[OVERVIEW_FILE \<mapsto> ''Last Updated: 21st September 2025'']"]
       h1 h2 h3
  show ?thesis by blast
qed

section \<open>Properties of breaking-change detection\<close>

lemma litMatch_ci:
  "litMatch True p s = None \<longleftrightarrow> \<not> prefix (toLowerCase p) (toLowerCase s)"
  by (induction "True" p s rule: litMatch.induct) (auto simp add: sameChar_def toLowerCase_def)

lemma includes_Cons: "includes' s p \<longleftrightarrow> prefix p s \<or> (s \<noteq> [] \<and> includes' (tl s) p)"
  by (cases s) auto

lemma afterFirst_ci:
  "afterFirst True p s = None \<longleftrightarrow> \<not> includes' (toLowerCase s) (toLowerCase p)"
proof (induction s)
  case Nil
  have "litMatch True p [] = None \<longleftrightarrow> p \<noteq> []" by (cases p) simp_all
  then show ?case by (simp add: toLowerCase_def)
next
  case (Cons c cs)
  have "includes' (toLowerCase (c # cs)) (toLowerCase p) \<longleftrightarrow>
          prefix (toLowerCase p) (toLowerCase (c # cs)) \<or>
          includes' (toLowerCase cs) (toLowerCase p)"
    by (simp add: toLowerCase_def)
  with Cons litMatch_ci [of p "c # cs"] show ?case
    by (cases "litMatch True p (c # cs)") (simp_all del: litMatch.simps)
qed

lemma lower_marker: "toLowerCase ''BREAKING CHANGE'' = ''breaking change''"
  by code_simp

lemma marker_present:
  "afterFirst True ''BREAKING CHANGE'' b = None \<longleftrightarrow> \<not> containsCI b ''breaking change''"
  by (simp only: afterFirst_ci lower_marker containsCI_def)

lemma breaking_flag:
  "breaking (parseReleaseBody (Some b)) =
     (containsCI b ''breaking change'' \<or> containsCI b ''!!breaking'')"
proof (cases "b = []")
  case True
  then show ?thesis
    by (simp add: parseReleaseBody_def containsCI_def toLowerCase_def)
next
  case False
  then show ?thesis
    by (simp add: parseReleaseBody_def categorize_filter detectBreaking_def containsCI_def)
qed

lemma breakingDesc_computed: "breakingDesc (Some b) = describedChange b"
proof -
  have "breakingDesc (Some b) =
          (case map_option groupText (rexec True True breakingRegex b) of
             Some g \<Rightarrow> trim g
           | None \<Rightarrow> ''This release contains breaking changes.'')"
    by (simp add: breakingDesc_def groupText_def split: option.splits)
  then show ?thesis
    by (simp add: rexec_breakingRegex describedChange_def split: option.splits)
qed

lemma warning_rendered:
  \<open>breaking (parseReleaseBody (body rel)) \<Longrightarrow>
     prefix (''<Update label="'' @ tag_name rel @ ''" description="Released '' @
             formatDate L (published_at rel) @ ''">\<newline>'' @
             ''<Warning>\<newline>'' @ breakingDesc (body rel) @ ''\<newline></Warning>\<newline>\<newline>'')
       (generateUpdateComponent L rel)\<close>
proof -
  assume "breaking (parseReleaseBody (body rel))"
  then have \<open>updateHead L rel =
     ''<Update label="'' @ tag_name rel @ ''" description="Released '' @
     formatDate L (published_at rel) @ ''">\<newline>'' @
     ''<Warning>\<newline>'' @ breakingDesc (body rel) @ ''\<newline></Warning>\<newline>\<newline>''\<close>
    by (simp add: updateHead_def)
  then show ?thesis
    by (metis generateUpdateComponent_blocks prefixI)
qed


text \<open>
  C7 as stated fails where the marker ends its line: the description is then taken from
  the next line, not from the (empty) remainder of the marker's line.
\<close>

theorem breaking_description_from_next_line:
  "breaking (parseReleaseBody (Some markerOnOwnLine)) \<and>
   breakingDesc (Some markerOnOwnLine) = ''The schema changed'' \<and>
   specBreakingDesc markerOnOwnLine = [] \<and>
   breakingDesc (Some markerOnOwnLine) \<noteq> specBreakingDesc markerOnOwnLine"
  by code_simp

text \<open>
  C7, amended.  The flag is set exactly when the body holds \<^verbatim>\<open>breaking change\<close> or
  \<^verbatim>\<open>!!breaking\<close>, letters compared without case.  The description is computed from the
  first \<^verbatim>\<open>BREAKING CHANGE\<close> (no colon needed): colons and white space behind it are
  skipped, line breaks among them, and the text up to the next line break is taken and
  trimmed.  A body without \<^verbatim>\<open>breaking change\<close> gets the fixed sentence.  The warning of a
  flagged release holds this description.
\<close>

theorem breaking_flag_and_description:
  \<open>breaking (parseReleaseBody (Some b)) =
     (containsCI b ''breaking change'' \<or> containsCI b ''!!breaking'') \<and>
   breakingDesc (Some b) = describedChange b \<and>
   (containsCI b ''breaking change'' \<longrightarrow>
      (\<exists>u. afterFirst True ''BREAKING CHANGE'' b = Some u \<and>
           describedChange b =
             trim (takeWhile (\<lambda>c. \<not> isLineTerminator c)
                     (dropWhile (\<lambda>c. c = CHR '':'' \<or> isSpace c) u)))) \<and>
   (\<not> containsCI b ''breaking change'' \<longrightarrow>
      describedChange b = ''This release contains breaking changes.'') \<and>
   (body rel = Some b \<and> breaking (parseReleaseBody (body rel)) \<longrightarrow>
      prefix (''<Update label="'' @ tag_name rel @ ''" description="Released '' @
              formatDate L (published_at rel) @ ''">\<newline>'' @
              ''<Warning>\<newline>'' @ describedChange b @ ''\<newline></Warning>\<newline>\<newline>'')
        (generateUpdateComponent L rel))\<close>
proof (intro conjI impI)
  show "breaking (parseReleaseBody (Some b)) =
     (containsCI b ''breaking change'' \<or> containsCI b ''!!breaking'')"
    by (rule breaking_flag)
  show "breakingDesc (Some b) = describedChange b"
    by (rule breakingDesc_computed)
next
  assume "containsCI b ''breaking change''"
  then obtain u where "afterFirst True ''BREAKING CHANGE'' b = Some u"
    using marker_present [of b] by auto
  then show "\<exists>u. afterFirst True ''BREAKING CHANGE'' b = Some u \<and>
           describedChange b =
             trim (takeWhile (\<lambda>c. \<not> isLineTerminator c)
                     (dropWhile (\<lambda>c. c = CHR '':'' \<or> isSpace c) u))"
    by (simp add: describedChange_def)
next
  assume "\<not> containsCI b ''breaking change''"
  then have "afterFirst True ''BREAKING CHANGE'' b = None"
    using marker_present [of b] by simp
  then show "describedChange b = ''This release contains breaking changes.''"
    by (simp add: describedChange_def)
next
  assume a: "body rel = Some b \<and> breaking (parseReleaseBody (body rel))"
  from a have b1: "body rel = Some b" by (rule conjunct1)
  from a have b2: "breaking (parseReleaseBody (body rel))" by (rule conjunct2)
  show \<open>prefix (''<Update label="'' @ tag_name rel @ ''" description="Released '' @
              formatDate L (published_at rel) @ ''">\<newline>'' @
              ''<Warning>\<newline>'' @ describedChange b @ ''\<newline></Warning>\<newline>\<newline>'')
        (generateUpdateComponent L rel)\<close>
    using warning_rendered [OF b2, of L] unfolding b1 breakingDesc_computed .
qed

theorem breaking_flag_and_description_witness:
  \<open>containsCI markerOnOwnLine ''breaking change'' \<and>
   describedChange markerOnOwnLine = ''The schema changed'' \<and>
   \<not> containsCI bangBreaking ''breaking change'' \<and>
   breaking (parseReleaseBody (Some bangBreaking)) \<and>
   describedChange bangBreaking = ''This release contains breaking changes.'' \<and>
   prefix (''<Update label="v4" description="Released 2025-02-02">\<newline><Warning>\<newline>'' @
           ''This release contains breaking changes.\<newline></Warning>\<newline>\<newline>'')
     (generateUpdateComponent sampleDates
        \<lparr>tag_name = ''v4'', published_at = ''2025-02-02'', body = Some bangBreaking,
         prerelease = False\<rparr>)\<close>
proof -
  have h1: "containsCI markerOnOwnLine ''breaking change''"
    by code_simp
  have h2: "\<not> containsCI bangBreaking ''breaking change''"
    by code_simp
  have h3: "containsCI bangBreaking ''!!breaking''"
    by code_simp
  have e: "afterFirst True ''BREAKING CHANGE'' markerOnOwnLine = Some '':\<newline>The schema changed''"
    by code_simp
  have t: "trim (takeWhile (\<lambda>c. \<not> isLineTerminator c)
             (dropWhile (\<lambda>c. c = CHR '':'' \<or> isSpace c) '':\<newline>The schema changed'')) =
           ''The schema changed''"
    by code_simp
  note a = breaking_flag_and_description [where b = markerOnOwnLine]
  note b = breaking_flag_and_description
             [where b = bangBreaking and L = sampleDates and
                rel = "\<lparr>tag_name = ''v4'', published_at = ''2025-02-02'',
                        body = Some bangBreaking, prerelease = False\<rparr>"]
  from a h1 e t have d1: "describedChange markerOnOwnLine = ''The schema changed''"
    by auto
  from b h2 h3 have f: "breaking (parseReleaseBody (Some bangBreaking))"
    and d2: "describedChange bangBreaking = ''This release contains breaking changes.''"
    by auto
  from b f d2 have \<open>prefix (''<Update label="'' @ ''v4'' @ ''" description="Released '' @
              formatDate sampleDates ''2025-02-02'' @ ''">\<newline>'' @
              ''<Warning>\<newline>'' @ ''This release contains breaking changes.'' @
              ''\<newline></Warning>\<newline>\<newline>'')
        (generateUpdateComponent sampleDates
           \<lparr>tag_name = ''v4'', published_at = ''2025-02-02'', body = Some bangBreaking,
            prerelease = False\<rparr>)\<close>
    by simp
  with h1 h2 d1 d2 f show ?thesis
    by (simp add: sampleDates_def)
qed

section \<open>The anchors of the overview, position by position\<close>

lemma replace_rep: "replace i m r new s = rep (headOf i m r) new s"
proof -
  have "(case rexec i m r s of None \<Rightarrow> s | Some x \<Rightarrow> prefixText x @ new @ suffixText x) =
          rep (headOf i m r) new s"
  proof (induction s)
    case Nil
    show ?case
      by (simp add: rexec.simps headOf_def split: list.splits)
  next
    case (Cons c cs)
    show ?case
    proof (cases "rmatch i m r (c # cs)")
      case Nil
      with Cons show ?thesis
        by (cases "rexec i m r cs") (simp_all add: rexec.simps headOf_def)
    next
      case (Cons x xs)
      then show ?thesis
        by (cases x) (simp add: rexec.simps headOf_def)
    qed
  qed
  then show ?thesis by (simp add: replace_def)
qed

lemma rmatch_Lit_reject: "c \<noteq> p0 \<Longrightarrow> rmatch False m (Lit (p0 # p)) (c # v) = []"
  by (simp add: rmatch.simps sameChar_def)

lemma rmatch_Seq_Lit_reject: "c \<noteq> p0 \<Longrightarrow> rmatch False m (Seq (Lit (p0 # p)) K) (c # v) = []"
  by (simp add: rmatch_Seq_Lit sameChar_def)

lemma cuts_collapse:
  assumes "\<And>c v. P c \<Longrightarrow> F (c # v) = []"
  shows "concat (map (\<lambda>(g, s'). F s') (rmatch i m (Star (Cls P)) cs)) = F (dropWhile P cs)"
proof (induction cs)
  case Nil
  show ?case by (subst rmatch_Star_Cls) simp
next
  case (Cons c cs)
  show ?case
    by (subst rmatch_Star_Cls) (simp add: Cons assms)
qed

lemma rmatch_Seq_unfold:
  "rmatch i m (Seq a K) s =
     concat (map (\<lambda>(g, s'). map (\<lambda>(g', s''). (later g g', s'')) (rmatch i m K s'))
                 (rmatch i m a s))"
  by (simp add: rmatch.simps)

lemma star_cls_captures: "(g, s') \<in> set (rmatch i m (Star (Cls P)) cs) \<Longrightarrow> g = None"
proof (induction cs arbitrary: g s')
  case Nil
  then show ?case by (subst (asm) rmatch_Star_Cls) simp
next
  case (Cons c cs)
  from Cons.prems show ?case
    by (subst (asm) rmatch_Star_Cls) (auto dest: Cons.IH split: if_splits)
qed

lemma rmatch_Seq_Star_Cls_F:
  "rmatch i m (Seq (Star (Cls P)) K) s =
     concat (map (\<lambda>(g, s'). rmatch i m K s') (rmatch i m (Star (Cls P)) s))"
proof -
  have e: "map (\<lambda>(g, s'). map (\<lambda>(g', s''). (later g g', s'')) (rmatch i m K s'))
          (rmatch i m (Star (Cls P)) s) =
        map (\<lambda>(g, s'). rmatch i m K s') (rmatch i m (Star (Cls P)) s)"
    by (rule map_cong [OF refl]) (auto simp add: later_None dest: star_cls_captures)
  show ?thesis unfolding rmatch_Seq_unfold e by (rule refl)
qed

lemma rmatch_Seq_Plus_Cls:
  assumes "\<And>c v. P c \<Longrightarrow> rmatch i m K (c # v) = []"
  shows "rmatch i m (Seq (Plus (Cls P)) K) s =
     (case s of [] \<Rightarrow> [] | c # cs \<Rightarrow> if P c then rmatch i m K (dropWhile P cs) else [])"
proof (cases s)
  case Nil
  then show ?thesis by (simp add: Plus_def rmatch.simps)
next
  case (Cons c cs)
  have 1: "rmatch i m (Seq (Cls P) (Star (Cls P))) (c # cs) =
             (if P c then rmatch i m (Star (Cls P)) cs else [])"
    by (simp add: rmatch_Seq_Cls)
  have "rmatch i m (Seq (Plus (Cls P)) K) (c # cs) =
          concat (map (\<lambda>(g, s'). map (\<lambda>(g', s''). (later g g', s'')) (rmatch i m K s'))
                    (rmatch i m (Seq (Cls P) (Star (Cls P))) (c # cs)))"
    unfolding Plus_def by (rule rmatch_Seq_unfold)
  also have "\<dots> = (if P c then rmatch i m (Seq (Star (Cls P)) K) cs else [])"
    unfolding 1 by (simp add: rmatch_Seq_unfold)
  also have "\<dots> = (if P c then rmatch i m K (dropWhile P cs) else [])"
    using cuts_collapse [of P "rmatch i m K" i m cs] assms
    by (simp add: rmatch_Seq_Star_Cls_F)
  finally show ?thesis using Cons by simp
qed

lemma star_captures: "(g, s') \<in> set (rmatch i m (Star a) v) \<Longrightarrow> g = None"
proof (induction v arbitrary: g s' rule: length_induct)
  case (1 v)
  from "1.prems" show ?case
    by (subst (asm) rmatch.simps) (auto dest: "1.IH" [rule_format] split: if_splits)
qed

lemma concat_map_concat:
  "concat (map f (concat xss)) = concat (map (\<lambda>xs. concat (map f xs)) xss)"
  by (induction xss) simp_all

lemma rmatch_Seq_Star_F:
  "rmatch i m (Seq (Star a) K) v =
     concat (map (\<lambda>(g, s'). rmatch i m K s') (rmatch i m (Star a) v))"
proof -
  have e: "map (\<lambda>(g, s'). map (\<lambda>(g', s''). (later g g', s'')) (rmatch i m K s'))
          (rmatch i m (Star a) v) =
        map (\<lambda>(g, s'). rmatch i m K s') (rmatch i m (Star a) v)"
    by (rule map_cong [OF refl]) (auto simp add: later_None dest: star_captures)
  show ?thesis unfolding rmatch_Seq_unfold e by (rule refl)
qed

lemma rmatch_Seq_Star_unfold:
  "rmatch i m (Seq (Star a) K) v =
     concat (map (\<lambda>(g, s'). if length s' < length v then rmatch i m (Seq (Star a) K) s' else [])
               (rmatch i m a v)) @
     rmatch i m K v"
proof -
  have "rmatch i m (Seq (Star a) K) v =
          concat (map (\<lambda>(g, s'). rmatch i m K s')
            (concat (map (\<lambda>(g, s'). if length s' < length v then rmatch i m (Star a) s' else [])
                       (rmatch i m a v)) @ [(None, v)]))"
    by (subst rmatch_Seq_Star_F) (subst rmatch.simps, rule refl)
  also have "\<dots> =
      concat (map (\<lambda>x. concat (map (\<lambda>(g, s'). rmatch i m K s')
                 ((\<lambda>(g, s'). if length s' < length v then rmatch i m (Star a) s' else []) x)))
               (rmatch i m a v)) @ rmatch i m K v"
    by (simp add: concat_map_concat comp_def)
  also have "(\<lambda>x. concat (map (\<lambda>(g, s'). rmatch i m K s')
                 ((\<lambda>(g, s'). if length s' < length v then rmatch i m (Star a) s' else []) x))) =
             (\<lambda>(g, s'). if length s' < length v then rmatch i m (Seq (Star a) K) s' else [])"
    by (auto simp add: fun_eq_iff rmatch_Seq_Star_F)
  finally show ?thesis .
qed

lemma rmatch_Plus_Cls:
  "rmatch i m (Plus (Cls P)) w =
     (case w of [] \<Rightarrow> [] | c # cs \<Rightarrow> if P c then rmatch i m (Star (Cls P)) cs else [])"
  unfolding Plus_def by (simp add: rmatch_Seq_Cls)

lemma rmatch_group:
  "rmatch False m (Seq (Lit '','') (Plus (Cls P))) v =
     (case v of
        c # d # w \<Rightarrow> if c = CHR '','' \<and> P d then rmatch False m (Star (Cls P)) w else []
      | _ \<Rightarrow> [])"
  by (auto simp add: rmatch_Seq_Lit rmatch_Plus_Cls sameChar_def split: list.splits)

lemma groups_step:
  assumes rej: "\<And>c v. isDigit c \<or> c = CHR '','' \<Longrightarrow> rmatch False m K (c # v) = []"
  shows "rmatch False m (Seq (Star (Seq (Lit '','') (Plus (Cls isDigit)))) K) v =
           rmatch False m K (skipGroups v)"
proof (induction v rule: skipGroups.induct)
  case (1 v)
  let ?K1 = "Seq (Star (Seq (Lit '','') (Plus (Cls isDigit)))) K"
  have digit_rej: "rmatch False m ?K1 (c # x) = []" if "isDigit c" for c x
  proof -
    from that have "c \<noteq> CHR '',''" by (auto simp add: isDigit_def)
    with that show ?thesis
      by (subst rmatch_Seq_Star_unfold) (simp add: rmatch_group rej split: list.splits)
  qed
  show ?case
  proof (cases "\<exists>d w. v = CHR '','' # d # w \<and> isDigit d")
    case True
    then obtain d w where v: "v = CHR '','' # d # w" and d: "isDigit d" by blast
    have "concat (map (\<lambda>(g, s').
              (\<lambda>s'. if length s' < length v then rmatch False m ?K1 s' else []) s')
            (rmatch False m (Star (Cls isDigit)) w)) =
          (\<lambda>s'. if length s' < length v then rmatch False m ?K1 s' else []) (dropWhile isDigit w)"
      by (rule cuts_collapse) (simp add: digit_rej)
    moreover have "length (dropWhile isDigit w) < length v"
      using v by (simp add: length_dropWhile_le less_Suc_eq_le le_SucI)
    ultimately have "rmatch False m ?K1 v = rmatch False m ?K1 (dropWhile isDigit w)"
      using v d by (subst rmatch_Seq_Star_unfold) (simp add: rmatch_group rej)
    also have "\<dots> = rmatch False m K (skipGroups (dropWhile isDigit w))"
      using v d by (intro "1.IH") simp_all
    also have "\<dots> = rmatch False m K (skipGroups v)"
      using v d by (subst (2) skipGroups.simps) simp
    finally show ?thesis .
  next
    case False
    then have g: "rmatch False m (Seq (Lit '','') (Plus (Cls isDigit))) v = []"
      by (auto simp add: rmatch_group split: list.splits)
    from False have "skipGroups v = v"
      by (subst skipGroups.simps) (auto split: list.splits)
    with g show ?thesis
      by (subst rmatch_Seq_Star_unfold) simp
  qed
qed

lemma rmatch_Lit_cases:
  "rmatch i m (Lit p) s = (case litMatch i p s of None \<Rightarrow> [] | Some rest \<Rightarrow> [(None, rest)])"
  by (simp add: rmatch.simps)

lemma number_then:
  assumes rej: "\<And>c v. isDigit c \<or> c = CHR '','' \<Longrightarrow> rmatch False m K (c # v) = []"
  shows "rmatch False m
           (Seq (Plus (Cls isDigit)) (Seq (Star (Seq (Lit '','') (Plus (Cls isDigit)))) K)) u =
         (case numberRest u of None \<Rightarrow> [] | Some v \<Rightarrow> rmatch False m K v)"
proof -
  have "rmatch False m (Seq (Star (Seq (Lit '','') (Plus (Cls isDigit)))) K) (c # v) = []"
    if "isDigit c" for c v
  proof -
    from that have "skipGroups (c # v) = c # v"
      by (subst skipGroups.simps) (auto simp add: isDigit_def split: list.splits)
    with that show ?thesis by (simp add: groups_step [OF rej] rej)
  qed
  then show ?thesis
    by (subst rmatch_Seq_Plus_Cls)
       (simp_all add: groups_step [OF rej] numberRest_def split: list.splits)
qed

lemma head_anchor: "headOf False False (anchorRegex color) s = anchorHead color s"
proof -
  have rej: "rmatch False False (Lit ''</div>'') (c # v) = []"
    if "isDigit c \<or> c = CHR '',''" for c v
    using that by (intro rmatch_Lit_reject) (auto simp add: isDigit_def)
  show ?thesis
    by (simp add: headOf_def anchorRegex_def anchorHead_def rmatch_Seq_Lit
          number_then [OF rej] rmatch_Lit_cases split: option.splits)
qed

lemma star_cls_first:
  "\<exists>more. rmatch i m (Star (Cls P)) t = (None, dropWhile P t) # more"
proof (induction t)
  case Nil
  show ?case by (subst rmatch_Star_Cls) simp
next
  case (Cons c t)
  then obtain more where "rmatch i m (Star (Cls P)) t = (None, dropWhile P t) # more" by blast
  then show ?case by (subst rmatch_Star_Cls) simp
qed

lemma head_date: "headOf False False dateRegex s = dateHead s"
proof (cases "litMatch False ''Last Updated: '' s")
  case None
  then show ?thesis
    by (simp add: headOf_def dateRegex_def dateHead_def rmatch_Seq_Lit)
next
  case (Some u)
  show ?thesis
  proof (cases u)
    case Nil
    with Some show ?thesis
      by (simp add: headOf_def dateRegex_def dateHead_def rmatch_Seq_Lit rmatch_Plus_Cls)
  next
    case (Cons x t)
    obtain more where
      "rmatch False False (Star (Cls (\<lambda>c. c \<noteq> CHR ''<''))) t =
         (None, dropWhile (\<lambda>c. c \<noteq> CHR ''<'') t) # more"
      using star_cls_first by blast
    with Some Cons show ?thesis
      by (simp add: headOf_def dateRegex_def dateHead_def rmatch_Seq_Lit rmatch_Plus_Cls)
  qed
qed

lemma digits_then:
  assumes "\<And>c v. isDigit c \<Longrightarrow> rmatch False m K (c # v) = []"
  shows "rmatch False m (Seq (Plus (Cls isDigit)) K) u =
         (case digitsRest u of None \<Rightarrow> [] | Some v \<Rightarrow> rmatch False m K v)"
  by (subst rmatch_Seq_Plus_Cls) (simp_all add: assms digitsRest_def split: list.splits)

lemma plus_rej: "isDigit c \<Longrightarrow> rmatch False m (Seq (Lit (CHR ''+'' # p)) K) (c # v) = []"
  by (rule rmatch_Seq_Lit_reject) (auto simp add: isDigit_def)

lemma plus_rej': "isDigit c \<Longrightarrow> rmatch False m (Lit (CHR ''+'' # p)) (c # v) = []"
  by (rule rmatch_Lit_reject) (auto simp add: isDigit_def)

lemma head_description: "headOf False False descriptionRegex s = descriptionHead s"
proof -
  let ?K3 = \<open>Lit ''+ cities in multiple formats"''\<close>
  let ?K2 = "Seq (Lit ''+ states, and '') (Seq (Plus (Cls isDigit)) ?K3)"
  let ?K1 = "Seq (Lit ''+ countries, '') (Seq (Plus (Cls isDigit)) ?K2)"
  have r3: "rmatch False False (Seq (Plus (Cls isDigit)) ?K3) u =
         (case digitsRest u of None \<Rightarrow> [] | Some v \<Rightarrow> rmatch False False ?K3 v)" for u
    by (rule digits_then) (rule plus_rej')
  have r2: "rmatch False False (Seq (Plus (Cls isDigit)) ?K2) u =
         (case digitsRest u of None \<Rightarrow> [] | Some v \<Rightarrow> rmatch False False ?K2 v)" for u
    by (rule digits_then) (rule plus_rej)
  have r1: "rmatch False False (Seq (Plus (Cls isDigit)) ?K1) u =
         (case digitsRest u of None \<Rightarrow> [] | Some v \<Rightarrow> rmatch False False ?K1 v)" for u
    by (rule digits_then) (rule plus_rej)
  show ?thesis
    unfolding headOf_def descriptionRegex_def descriptionHead_def seqs.simps
    by (simp only: rmatch_Seq_Lit r1 r2 r3 rmatch_Lit_cases) (auto split: option.splits)
qed

subsection \<open>Replacing the leftmost match\<close>

lemma rep_skip: "noStart h u r \<Longrightarrow> rep h n (u @ r) = u @ rep h n r"
  by (induction u) simp_all

lemma occurrences_skip: "noStart h u r \<Longrightarrow> occurrences h (u @ r) = occurrences h r"
  by (induction u) simp_all

lemma occurrences_mono: "occurrences h r \<le> occurrences h (u @ r)"
  by (induction u) simp_all

lemma noStart_append: "noStart h (u @ v) r \<longleftrightarrow> noStart h u (v @ r) \<and> noStart h v r"
  by (induction u) auto

lemma noStart_charset:
  assumes "\<And>c t. c \<noteq> f \<Longrightarrow> h (c # t) = None"
  shows "f \<notin> set u \<Longrightarrow> noStart h u r"
  by (induction u) (auto simp add: assms)

lemma rep_cases:
  obtains (none) "rep h n s = s" "occurrences h s = 0"
  | (hit) pre t rest where "s = pre @ t" "h t = Some rest" "rep h n s = pre @ n @ rest"
      "noStart h pre t"
proof (induction s arbitrary: thesis)
  case Nil
  show ?case
  proof (cases "h []")
    case None
    then show ?thesis by (intro Nil(1)) simp_all
  next
    case (Some rest)
    then show ?thesis by (intro Nil(2) [of "[]" "[]" rest]) simp_all
  qed
next
  case (Cons c cs)
  show ?case
  proof (cases "h (c # cs)")
    case (Some rest)
    then show ?thesis by (intro Cons(3) [of "[]" "c # cs" rest]) simp_all
  next
    case None
    show ?thesis
    proof (rule Cons.IH)
      assume "rep h n cs = cs" "occurrences h cs = 0"
      with None show ?thesis by (intro Cons(2)) simp_all
    next
      fix pre t rest
      assume "cs = pre @ t" "h t = Some rest" "rep h n cs = pre @ n @ rest" "noStart h pre t"
      with None show ?thesis by (intro Cons(3) [of "c # pre" t rest]) simp_all
    qed
  qed
qed

lemma occurrences_zero: "occurrences h s = 0 \<Longrightarrow> rep h n s = s"
  by (induction s) (auto split: if_splits)

text \<open>
  A match of \<open>hX\<close> at the head of a text survives when the leftmost match of \<open>hY\<close> behind
  the head is undone: the two texts agree up to the end of the literal that opens the
  match of \<open>hY\<close>, and a window of \<open>hX\<close> cannot reach beyond that literal.
\<close>

lemma head_stable:
  assumes lit: "\<And>t rest. hY t = Some rest \<Longrightarrow> \<exists>m'. t = lit @ m' @ rest"
      and new: "nY = lit @ n'"
      and win: "\<And>s z. hX s = Some z \<Longrightarrow>
                  \<exists>w. prefix w s \<and> (\<forall>t. hX (w @ t) \<noteq> None) \<and>
                      (\<forall>a b. w = a @ lit @ b \<longrightarrow> a \<noteq> [] \<longrightarrow> b \<noteq> [] \<longrightarrow> False)"
      and hit: "hX (c # rep hY nY cs) \<noteq> None"
  shows "hX (c # cs) \<noteq> None"
proof (cases rule: rep_cases [of hY nY cs])
  case none
  with hit show ?thesis by simp
next
  case (hit pre t rest)
  from lit [OF hit(2)] obtain m' where t: "t = lit @ m' @ rest" by blast
  from \<open>hX (c # rep hY nY cs) \<noteq> None\<close> obtain z where "hX (c # rep hY nY cs) = Some z"
    by blast
  from win [OF this] obtain w where
    w: "prefix w (c # rep hY nY cs)" and all: "\<forall>t. hX (w @ t) \<noteq> None" and
    no: "\<forall>a b. w = a @ lit @ b \<longrightarrow> a \<noteq> [] \<longrightarrow> b \<noteq> [] \<longrightarrow> False"
    by blast
  have new_text: "c # rep hY nY cs = (c # pre) @ lit @ (n' @ rest)"
    using hit(3) new by simp
  have old_text: "c # cs = (c # pre) @ lit @ (m' @ rest)"
    using hit(1) t by simp
  show ?thesis
  proof (cases "length w \<le> length ((c # pre) @ lit)")
    case True
    with w new_text have "prefix w ((c # pre) @ lit)"
      by (metis append.assoc prefix_length_prefix prefixI)
    then obtain y where "(c # pre) @ lit = w @ y" by (auto simp add: prefix_def)
    with old_text have "c # cs = w @ (y @ m' @ rest)" by (metis append.assoc)
    with all show ?thesis by metis
  next
    case False
    from w obtain y where y: "c # rep hY nY cs = w @ y" by (auto simp add: prefix_def)
    with new_text have "w @ y = ((c # pre) @ lit) @ (n' @ rest)" by simp
    then have "take (length ((c # pre) @ lit)) (w @ y) = (c # pre) @ lit" by simp
    with False have "take (length ((c # pre) @ lit)) w = (c # pre) @ lit" by simp
    then have "w = ((c # pre) @ lit) @ drop (length ((c # pre) @ lit)) w"
      by (metis append_take_drop_id)
    moreover from False have "drop (length ((c # pre) @ lit)) w \<noteq> []" by simp
    ultimately obtain b where "w = ((c # pre) @ lit) @ b" "b \<noteq> []" by blast
    with no show ?thesis by (metis append.assoc list.distinct(1) append_Cons)
  qed
qed

end
